theory Spec2Isabelle
  imports Complex_Main "HOL-Library.Word" "HOL-Library.Log_Nat"
begin

unbundle bit_operations_syntax

section \<open>Symbolic Fourier Approximation: the data model\<close>

text \<open>
  The development follows \<^verbatim>\<open>aeon/transformations/collection/dictionary_based/_sfa.py\<close>.
  Conventions of the embedding:
  \<^item> a Python \<^verbatim>\<open>int\<close> is an \<^typ>\<open>int\<close>; a numba or numpy \<^verbatim>\<open>int64\<close> is a
    \<^typ>\<open>64 word\<close>, read back as a Python integer with \<^term>\<open>sint\<close>;
  \<^item> a float64 is idealised as a \<^typ>\<open>real\<close> (no rounding, no NaN, no infinity);
    \<^verbatim>\<open>sys.float_info.max\<close> is the real number \<open>float_max\<close>;
  \<^item> a numpy array is a list, a 2-d array a list of rows; the shapes that numpy fixes at
    allocation (a coefficient row has at least \<open>word_length\<close> entries, the breakpoints
    are a \<open>word_length \<times> alphabet_size\<close> matrix) are stated as hypotheses where a
    theorem reads the arrays;
  \<^item> a bag (a Python \<^verbatim>\<open>dict\<close> or a numba typed \<^verbatim>\<open>Dict\<close>) is a map from keys
    to counts;
  \<^item> an exception is a value of type \<open>error\<close>.
\<close>

datatype error = ValueError | TypeError | ZeroDivisionError | IndexError

text \<open>The argument \<^verbatim>\<open>n_jobs\<close>: \<^verbatim>\<open>None\<close>, an integer, or a value of another type.\<close>

datatype n_jobs_arg = NoJobs | IntJobs int | OtherJobs

text \<open>
  The class \<^verbatim>\<open>SFA\<close>: the constructor's arguments, the attributes \<^verbatim>\<open>__init__\<close>
  derives from them, and the attributes \<^verbatim>\<open>_fit\<close> and \<^verbatim>\<open>_transform\<close> set.
  The attributes \<^verbatim>\<open>_typed_dict\<close>, \<^verbatim>\<open>_use_fallback_dft\<close> and \<^verbatim>\<open>_n_jobs\<close> carry the
  prefix \<open>priv\<close>; \<^verbatim>\<open>norm\<close> is \<open>norm_opt\<close>. \<^verbatim>\<open>lower_bounding_distances\<close> is read for
  its truth value only (\<^verbatim>\<open>None\<close> is \<open>False\<close>).
\<close>

record sfa =
  word_length :: int
  alphabet_size :: int
  window_size :: int
  norm_opt :: bool
  binning_method :: string
  anova :: bool
  bigrams :: bool
  skip_grams :: bool
  remove_repeat_words :: bool
  levels :: int
  lower_bounding :: bool
  lower_bounding_distances :: bool
  save_words :: bool
  use_fallback_dft :: bool
  typed_dict :: bool
  n_jobs :: n_jobs_arg
  dft_length :: int
  support :: "nat list"
  inverse_sqrt_win_size :: real
  priv_use_fallback_dft :: bool
  priv_typed_dict :: bool
  priv_n_jobs :: int
  n_cases :: int
  n_timepoints :: int
  letter_bits :: int
  letter_max :: int
  word_bits :: int
  max_bits :: int
  level_bits :: int
  level_max :: int
  breakpoints :: "real list list"
  words :: "int list list"

text \<open>\<^verbatim>\<open>sys.float_info.max\<close>, the largest finite double.\<close>

definition float_max :: real where
  "float_max = (2 ^ 53 - 1) * 2 ^ 971"

text \<open>\<^verbatim>\<open>math.ceil(math.log2(n))\<close> and \<^verbatim>\<open>int(np.log2(n))\<close> for an integer \<open>n \<ge> 1\<close>.\<close>

definition ceil_log2 :: "int \<Rightarrow> int" where
  "ceil_log2 n = \<lceil>log 2 (real_of_int n)\<rceil>"

definition int_log2 :: "int \<Rightarrow> int" where
  "int_log2 n = \<lfloor>log 2 (real_of_int n)\<rfloor>"

section \<open>WordEncoder\<close>

text \<open>
  The inner loop of \<^verbatim>\<open>_create_word\<close>:
  \<^verbatim>\<open>for bp in range(alphabet_size): if dft[i] <= breakpoints[i][bp]: ...; break\<close>.
  The result is the first bin whose breakpoint is not below the coefficient, or \<open>None\<close>
  when the loop ends without a \<^verbatim>\<open>break\<close>.
\<close>

definition find_bin :: "real \<Rightarrow> real list \<Rightarrow> int \<Rightarrow> nat option" where
  "find_bin x row a = List.find (\<lambda>bp. x \<le> row ! bp) [0..<nat a]"

text \<open>
  \<^verbatim>\<open>_create_word\<close> (numba, \<^verbatim>\<open>word = np.int64(0)\<close>): the shift and the or are 64-bit
  operations. A letter whose coefficient is above every breakpoint of its row is skipped:
  the word is not shifted.
\<close>

definition create_word :: "real list \<Rightarrow> int \<Rightarrow> int \<Rightarrow> real list list \<Rightarrow> int \<Rightarrow> 64 word" where
  "create_word dft wl a bps lb =
     fold (\<lambda>i word. case find_bin (dft ! i) (bps ! i) a of
                       None \<Rightarrow> word
                     | Some bp \<Rightarrow> push_bit (nat lb) word OR of_nat bp)
          [0..<nat wl] 0"

text \<open>\<^verbatim>\<open>_create_word_large\<close>: the same loop on an unbounded Python integer.\<close>

definition create_word_large :: "sfa \<Rightarrow> real list \<Rightarrow> int" where
  "create_word_large st dft =
     fold (\<lambda>i word. case find_bin (dft ! i) (breakpoints st ! i) (alphabet_size st) of
                       None \<Rightarrow> word
                     | Some bp \<Rightarrow> push_bit (nat (letter_bits st)) word OR int bp)
          [0..<nat (word_length st)] 0"

text \<open>
  \<^verbatim>\<open>_create_word_full\<close>: the letters themselves, in an \<^verbatim>\<open>int32\<close> array that starts
  as zeros; a letter with no bin stays 0.
\<close>

definition create_word_full :: "real list \<Rightarrow> int \<Rightarrow> int \<Rightarrow> real list list \<Rightarrow> int \<Rightarrow> nat list" where
  "create_word_full dft wl a bps lb =
     map (\<lambda>i. case find_bin (dft ! i) (bps ! i) a of None \<Rightarrow> 0 | Some bp \<Rightarrow> bp)
         [0..<nat wl]"

text \<open>
  \<^verbatim>\<open>_get_chars\<close> (numba): the letter width is recomputed as \<^verbatim>\<open>int(np.log2(alphabet_size))\<close>,
  the letters are cut off the low end of the 64-bit word with an arithmetic shift and
  stored, from the last position backwards, in a \<^verbatim>\<open>uint32\<close> array.
\<close>

fun get_chars_loop :: "nat \<Rightarrow> 64 word \<Rightarrow> 64 word \<Rightarrow> nat \<Rightarrow> 32 word list \<Rightarrow> 32 word list" where
  "get_chars_loop 0 word msk lb chars = chars"
| "get_chars_loop (Suc n) word msk lb chars =
     get_chars_loop n (signed_drop_bit lb word) msk lb (ucast (word AND msk) # chars)"

definition get_chars :: "64 word \<Rightarrow> int \<Rightarrow> int \<Rightarrow> 32 word list" where
  "get_chars word wl a =
     (let lb = nat (int_log2 a);
          msk = push_bit lb 1 - 1
      in get_chars_loop (nat wl) word msk lb [])"


text \<open>
  \<^verbatim>\<open>word_list\<close>: the decoder used by \<^verbatim>\<open>bag_to_string\<close>; it reads the letters from
  the most significant one down with the fitted \<^verbatim>\<open>letter_bits\<close> and \<^verbatim>\<open>letter_max\<close>.
  The result is the triple of the bigram letters (when the key is longer than one word),
  the letters, and the level (when \<^verbatim>\<open>levels > 1\<close>). \<^verbatim>\<open>int.bit_length\<close> is
  \<^term>\<open>bitlen\<close> of the absolute value.
\<close>

definition word_letters :: "sfa \<Rightarrow> int \<Rightarrow> int \<Rightarrow> int list" where
  "word_letters st word shift =
     map (\<lambda>j. drop_bit (nat (shift - int j * letter_bits st)) word AND letter_max st)
         [0..<nat (word_length st)]"

definition word_list :: "sfa \<Rightarrow> int \<Rightarrow> int list option \<times> int list \<times> int option" where
  "word_list st word =
     (let wb = word_bits st + level_bits st;
          letters = word_letters st word (wb - letter_bits st);
          bigram_letters =
            (if bitlen \<bar>word\<bar> > word_bits st + level_bits st
             then Some (word_letters st word (word_bits st + wb - letter_bits st))
             else None);
          level = (if levels st > 1 then Some (word AND level_max st) else None)
      in (bigram_letters, letters, level))"

section \<open>Orchestrator: construction and fit\<close>

text \<open>
  \<^verbatim>\<open>__init__\<close>: stores the arguments, derives \<^verbatim>\<open>dft_length\<close> (made even),
  \<^verbatim>\<open>support\<close>, \<^verbatim>\<open>inverse_sqrt_win_size\<close>, \<^verbatim>\<open>_use_fallback_dft\<close> and \<^verbatim>\<open>_typed_dict\<close>
  and zeroes the attributes that \<^verbatim>\<open>_fit\<close> sets. The argument \<open>numba_disabled\<close> is the
  test \<^verbatim>\<open>os.environ.get("NUMBA_DISABLE_JIT") == "1"\<close>. \<^verbatim>\<open>math.sqrt\<close> raises
  \<^verbatim>\<open>ValueError\<close> below zero, and the division raises at zero.
\<close>

definition init :: "bool \<Rightarrow> sfa \<Rightarrow> error + sfa" where
  "init numba_disabled args =
     (let offset = (if norm_opt args then 2 else 0);
          dl = (if anova args then window_size args - offset else word_length args);
          dl2 = dl + dl mod 2;
          scaled = (\<not> lower_bounding args \<or> lower_bounding_distances args)
      in if scaled \<and> window_size args < 0 then Inl ValueError
         else if scaled \<and> window_size args = 0 then Inl ZeroDivisionError
         else Inr (args\<lparr>
           dft_length := dl2,
           support := [0..<nat (word_length args)],
           inverse_sqrt_win_size :=
             (if scaled then 1 / sqrt (real_of_int (window_size args)) else 1),
           priv_use_fallback_dft :=
             (if word_length args < window_size args - offset then use_fallback_dft args
              else True),
           priv_typed_dict := (typed_dict args \<and> \<not> numba_disabled),
           priv_n_jobs := 0, n_cases := 0, n_timepoints := 0,
           letter_bits := 0, letter_max := 0, word_bits := 0, max_bits := 0,
           level_bits := 0, level_max := 0, breakpoints := [], words := []\<rparr>))"

text \<open>The default arguments of the constructor.\<close>

definition default_args :: sfa where
  "default_args = \<lparr>
     word_length = 8, alphabet_size = 4, window_size = 12, norm_opt = False,
     binning_method = ''equi-depth'', anova = False, bigrams = False, skip_grams = False,
     remove_repeat_words = False, levels = 1, lower_bounding = True,
     lower_bounding_distances = False, save_words = False, use_fallback_dft = False,
     typed_dict = False, n_jobs = IntJobs 1,
     dft_length = 0, support = [], inverse_sqrt_win_size = 0,
     priv_use_fallback_dft = False, priv_typed_dict = False, priv_n_jobs = 0,
     n_cases = 0, n_timepoints = 0, letter_bits = 0, letter_max = 0, word_bits = 0,
     max_bits = 0, level_bits = 0, level_max = 0, breakpoints = [], words = []\<rparr>"

text \<open>The module constant \<^verbatim>\<open>binning_methods\<close>.\<close>

definition binning_methods :: "string set" where
  "binning_methods =
     {''equi-depth'', ''equi-width'', ''information-gain'', ''information-gain-mae'',
      ''kmeans''}"

text \<open>
  \<^verbatim>\<open>check_n_jobs\<close> of \<^verbatim>\<open>aeon.utils.validation\<close>; \<open>cpu_count\<close> is the value of
  \<^verbatim>\<open>os.cpu_count()\<close>. \<open>OtherJobs\<close> stands for a value that is neither \<^verbatim>\<open>None\<close>,
  nor equal to 0, nor an integer.
\<close>

definition check_n_jobs :: "int \<Rightarrow> n_jobs_arg \<Rightarrow> error + int" where
  "check_n_jobs cpu_count nj =
     (case nj of
        NoJobs \<Rightarrow> Inr 1
      | OtherJobs \<Rightarrow> Inl ValueError
      | IntJobs n \<Rightarrow>
          if n = 0 then Inr 1
          else if n < 0 then Inr (max 1 (cpu_count + 1 + n))
          else Inr n)"

text \<open>
  The first part of \<^verbatim>\<open>_fit\<close>, up to the two typed-dictionary guards: the checks of
  the configuration and the bit widths. The result is the exception raised, if any, and
  the object as the assignments made so far have left it. \<open>has_y\<close> is \<^verbatim>\<open>y is not None\<close>.
\<close>

definition fit_validate :: "int \<Rightarrow> sfa \<Rightarrow> bool \<Rightarrow> error option \<times> sfa" where
  "fit_validate cpu_count st has_y =
     (case check_n_jobs cpu_count (n_jobs st) of
        Inl e \<Rightarrow> (Some e, st)
      | Inr j \<Rightarrow>
         (let st1 = st\<lparr>priv_n_jobs := j\<rparr> in
          if alphabet_size st1 < 2 then (Some ValueError, st1)
          else if word_length st1 < 1 then (Some ValueError, st1)
          else if (binning_method st1 = ''information-gain''
                   \<or> binning_method st1 = ''information-gain-mae'') \<and> \<not> has_y
            then (Some ValueError, st1)
          else if binning_method st1 \<notin> binning_methods then (Some TypeError, st1)
          else
           (let lb = ceil_log2 (alphabet_size st1);
                wb = word_length st1 * lb;
                st2 = st1\<lparr>letter_bits := lb, letter_max := 2 ^ nat lb - 1, word_bits := wb,
                           max_bits := (if bigrams st1 \<or> skip_grams st1 then wb * 2 else wb)\<rparr>
            in if priv_typed_dict st2 \<and> max_bits st2 > 64 then (Some ValueError, st2)
               else if priv_typed_dict st2 \<and> levels st2 > 15 then (Some ValueError, st2)
               else (None, st2))))"

text \<open>
  \<^verbatim>\<open>X.squeeze(1)\<close> on a collection of shape (cases, channels, timepoints): it raises
  unless there is exactly one channel.
\<close>

definition squeeze1 :: "real list list list \<Rightarrow> error + real list list" where
  "squeeze1 X = (if \<forall>c \<in> set X. length c = 1 then Inr (map hd X) else Inl ValueError)"

text \<open>
  \<^verbatim>\<open>_fit\<close>. The call \<^verbatim>\<open>self._binning(X, y)\<close> is the argument \<open>binning\<close>: it runs the
  Fourier transform on every series and the breakpoint learner (which for three of the
  five strategies is scikit-learn's), may raise, and returns the breakpoints together
  with the two attributes it reassigns under \<^verbatim>\<open>anova\<close>, \<^verbatim>\<open>support\<close> and
  \<^verbatim>\<open>dft_length\<close>.
\<close>

type_synonym binning =
  "sfa \<Rightarrow> real list list \<Rightarrow> real list option \<Rightarrow> error + real list list \<times> nat list \<times> int"

definition fit ::
  "binning \<Rightarrow> int \<Rightarrow> sfa \<Rightarrow> real list list list \<Rightarrow> real list option \<Rightarrow> error option \<times> sfa" where
  "fit binning cpu_count st X y =
     (case fit_validate cpu_count st (y \<noteq> None) of
        (Some e, st') \<Rightarrow> (Some e, st')
      | (None, st2) \<Rightarrow>
         (case squeeze1 X of
            Inl e \<Rightarrow> (Some e, st2)
          | Inr X1 \<Rightarrow>
             (let st3 = (if levels st2 > 1
                         then (let quadrants = (\<Sum>i \<leftarrow> [0..<nat (levels st2)]. 2 ^ i);
                                   lvb = ceil_log2 quadrants
                               in st2\<lparr>level_bits := lvb, level_max := 2 ^ nat lvb - 1\<rparr>)
                         else st2);
                  st4 = st3\<lparr>n_cases := int (length X1),
                            n_timepoints := (case X1 of [] \<Rightarrow> 0 | s # _ \<Rightarrow> int (length s))\<rparr>
              in case binning st4 X1 y of
                   Inl e \<Rightarrow> (Some e, st4)
                 | Inr (bps, supp, dl) \<Rightarrow>
                     (None, st4\<lparr>support := supp, dft_length := dl, breakpoints := bps\<rparr>))))"

section \<open>BagBuilder\<close>

text \<open>
  A key of a bag is an integer or, in a typed dictionary with pyramid levels, a pair of
  integers. A typed dictionary stores its counts as \<^verbatim>\<open>uint32\<close>: the sum wraps at
  \<open>2 ^ 32\<close> when it is stored.
\<close>

datatype key = IntKey int | PairKey int int

type_synonym bag = "key \<rightharpoonup> nat"

definition bag_get :: "bag \<Rightarrow> key \<Rightarrow> nat" where
  "bag_get bag k = (case bag k of None \<Rightarrow> 0 | Some c \<Rightarrow> c)"

definition bag_add :: "sfa \<Rightarrow> bag \<Rightarrow> key \<Rightarrow> nat \<Rightarrow> bag" where
  "bag_add st bag k n =
     bag(k \<mapsto> (if priv_typed_dict st then (bag_get bag k + n) mod 2 ^ 32
                else bag_get bag k + n))"

text \<open>
  The word of one window, as \<^verbatim>\<open>_transform_case\<close> selects it: the 64-bit routine,
  whose result comes back as a signed Python integer, while \<^verbatim>\<open>word_bits <= 64\<close>, the
  unbounded one otherwise.
\<close>

definition window_word :: "sfa \<Rightarrow> real list \<Rightarrow> int" where
  "window_word st dft =
     (if word_bits st \<le> 64
      then sint (create_word dft (word_length st) (alphabet_size st) (breakpoints st)
                   (letter_bits st))
      else create_word_large st dft)"

text \<open>\<^verbatim>\<open>_add_to_bag\<close>: the flag returned says whether the word was suppressed as a repeat.\<close>

definition add_to_bag :: "sfa \<Rightarrow> bag \<Rightarrow> int \<Rightarrow> int \<Rightarrow> bool \<times> bag" where
  "add_to_bag st bag word last_word =
     (if remove_repeat_words st \<and> word = last_word then (True, bag)
      else (False, bag_add st bag (IntKey word) 1))"

text \<open>
  \<^verbatim>\<open>int(x / y)\<close> on integers: the quotient truncated towards zero (the float division
  is exact enough below \<open>2 ^ 53\<close>); it raises when \<open>y = 0\<close>, which the callers test.
\<close>

definition int_div :: "int \<Rightarrow> int \<Rightarrow> int" where
  "int_div x y = sgn x * sgn y * (\<bar>x\<bar> div \<bar>y\<bar>)"

text \<open>
  The quadrant of \<^verbatim>\<open>_add_level\<close>, \<^verbatim>\<open>_add_level_large\<close> and \<^verbatim>\<open>_add_level_typed\<close>:
  \<^verbatim>\<open>start + int((window_ind + int(window_size / 2)) / int(n_timepoints / num_quadrants))\<close>.
\<close>

definition quadrant :: "sfa \<Rightarrow> int \<Rightarrow> nat \<Rightarrow> int \<Rightarrow> error + int" where
  "quadrant st start level window_ind =
     (let num_quadrants = 2 ^ level;
          width = int_div (n_timepoints st) num_quadrants
      in if width = 0 then Inl ZeroDivisionError
         else Inr (start + int_div (window_ind + int_div (window_size st) 2) width))"

text \<open>
  The key of a word at a level, as \<^verbatim>\<open>_add_to_pyramid\<close> selects it: a pair in a typed
  dictionary, the 64-bit packing while \<^verbatim>\<open>word_bits + level_bits <= 64\<close>, the unbounded
  packing otherwise.
\<close>

definition add_level :: "int \<Rightarrow> int \<Rightarrow> int \<Rightarrow> int" where
  "add_level word q lvb = sint (push_bit (nat lvb) (word_of_int word :: 64 word) OR word_of_int q)"

definition add_level_large :: "sfa \<Rightarrow> int \<Rightarrow> int \<Rightarrow> int" where
  "add_level_large st word q = push_bit (nat (level_bits st)) word OR q"

definition level_key :: "sfa \<Rightarrow> int \<Rightarrow> int \<Rightarrow> nat \<Rightarrow> int \<Rightarrow> error + key" where
  "level_key st word start level window_ind =
     (case quadrant st start level window_ind of
        Inl e \<Rightarrow> Inl e
      | Inr q \<Rightarrow>
          Inr (if priv_typed_dict st then PairKey word q
               else if word_bits st + level_bits st \<le> 64
                 then IntKey (add_level word q (level_bits st))
               else IntKey (add_level_large st word q)))"

text \<open>
  The loop of \<^verbatim>\<open>_add_to_pyramid\<close> over the levels: level \<open>i\<close> adds \<open>2 ^ i\<close> to the
  count of its key and moves \<open>start\<close> on by \<open>2 ^ i\<close>.
\<close>

fun add_levels :: "sfa \<Rightarrow> int \<Rightarrow> int \<Rightarrow> nat list \<Rightarrow> int \<Rightarrow> bag \<Rightarrow> error + bag" where
  "add_levels st word window_ind [] start bag = Inr bag"
| "add_levels st word window_ind (i # lvls) start bag =
     (case level_key st word start i window_ind of
        Inl e \<Rightarrow> Inl e
      | Inr k \<Rightarrow> add_levels st word window_ind lvls (start + 2 ^ i) (bag_add st bag k (2 ^ i)))"

definition add_to_pyramid :: "sfa \<Rightarrow> bag \<Rightarrow> int \<Rightarrow> int \<Rightarrow> int \<Rightarrow> error + bool \<times> bag" where
  "add_to_pyramid st bag word last_word window_ind =
     (if remove_repeat_words st \<and> word = last_word then Inr (True, bag)
      else case add_levels st word window_ind [0..<nat (levels st)] 0 bag of
             Inl e \<Rightarrow> Inl e
           | Inr bag' \<Rightarrow> Inr (False, bag'))"

text \<open>
  \<^verbatim>\<open>_create_bigram_words(word_raw, word)\<close>: the earlier word goes to the high bits.
  The 64-bit routine runs while \<^verbatim>\<open>max_bits <= 64\<close>. The other routine is plain Python:
  it is exact on Python integers, and 64-bit again when the earlier word is a numpy
  \<^verbatim>\<open>int64\<close> scalar (\<open>np64\<close>), as an element of the array of words of
  \<^verbatim>\<open>_transform_case\<close> is while \<^verbatim>\<open>word_bits <= 64\<close>.
\<close>

definition create_bigram_word :: "int \<Rightarrow> int \<Rightarrow> int \<Rightarrow> int" where
  "create_bigram_word word other_word wb =
     sint (push_bit (nat wb) (word_of_int word :: 64 word) OR word_of_int other_word)"

definition create_bigram_word_large :: "sfa \<Rightarrow> bool \<Rightarrow> int \<Rightarrow> int \<Rightarrow> int" where
  "create_bigram_word_large st np64 word other_word =
     (if np64 then create_bigram_word word other_word (word_bits st)
      else push_bit (nat (word_bits st)) word OR other_word)"

definition create_bigram_words :: "sfa \<Rightarrow> bool \<Rightarrow> int \<Rightarrow> int \<Rightarrow> int" where
  "create_bigram_words st np64 word_raw word =
     (if max_bits st \<le> 64 then create_bigram_word word word_raw (word_bits st)
      else create_bigram_word_large st np64 word word_raw)"

text \<open>
  The key under which a bigram or skip-gram is counted: with pyramid levels it is the
  pair with \<open>-1\<close> in a typed dictionary and \<^verbatim>\<open>(bigram << level_bits) | 0\<close> otherwise
  (a 64-bit shift when the bigram is a numpy scalar).
\<close>

definition ngram_key :: "sfa \<Rightarrow> bool \<Rightarrow> int \<Rightarrow> int \<Rightarrow> key" where
  "ngram_key st np64 word_raw word =
     (let bigram = create_bigram_words st np64 word_raw word
      in if levels st > 1
         then (if priv_typed_dict st then PairKey bigram (- 1)
               else if np64 \<and> max_bits st > 64
                 then IntKey (sint (push_bit (nat (level_bits st))
                                      (word_of_int bigram :: 64 word)))
               else IntKey (push_bit (nat (level_bits st)) bigram))
         else IntKey bigram)"

text \<open>
  One n-gram step: \<^verbatim>\<open>if window - offset >= 0\<close>, the word \<open>offset\<close> windows back in
  \<open>ws\<close> (after \<open>f\<close>, the shortening in \<^verbatim>\<open>_shorten_case\<close>) is combined with the current
  one and counted. An index beyond the array raises.
\<close>

definition ngram_step ::
  "sfa \<Rightarrow> bool \<Rightarrow> (int \<Rightarrow> int) \<Rightarrow> int list \<Rightarrow> nat \<Rightarrow> int \<Rightarrow> int \<Rightarrow> bag \<Rightarrow> error + bag" where
  "ngram_step st np64 f ws window offset word_raw bag =
     (if int window - offset \<ge> 0
      then (if nat (int window - offset) < length ws
            then Inr (bag_add st bag
                        (ngram_key st np64 word_raw (f (ws ! nat (int window - offset)))) 1)
            else Inl IndexError)
      else Inr bag)"

text \<open>
  The n-gram part of one iteration, the same in \<^verbatim>\<open>_transform_case\<close> and
  \<^verbatim>\<open>_shorten_case\<close>: the bigram at distance \<^verbatim>\<open>window_size\<close>, then the skip-grams at
  twice and three times that distance.
\<close>

definition ngrams ::
  "sfa \<Rightarrow> bool \<Rightarrow> (int \<Rightarrow> int) \<Rightarrow> int list \<Rightarrow> nat \<Rightarrow> int \<Rightarrow> bag \<Rightarrow> error + bag" where
  "ngrams st np64 f ws window word_raw bag =
     (case (if bigrams st then ngram_step st np64 f ws window (window_size st) word_raw bag
            else Inr bag) of
        Inl e \<Rightarrow> Inl e
      | Inr bag1 \<Rightarrow>
          if skip_grams st
          then (case ngram_step st np64 f ws window (2 * window_size st) word_raw bag1 of
                  Inl e \<Rightarrow> Inl e
                | Inr bag2 \<Rightarrow> ngram_step st np64 f ws window (3 * window_size st) word_raw bag2)
          else Inr bag1)"

text \<open>
  The state of the loop over the windows: the bag, \<^verbatim>\<open>last_word\<close>, \<^verbatim>\<open>repeat_words\<close>
  and the array \<^verbatim>\<open>words\<close>.
\<close>

record loop_state =
  the_bag :: bag
  last_word :: int
  repeat_words :: nat
  word_array :: "int list"

text \<open>
  The unigram part of one iteration: the word goes to the pyramid or to the bag, with the
  window index moved back by half the current run of repeats, and the repeat tracker is
  updated.
\<close>

definition count_word :: "sfa \<Rightarrow> nat \<Rightarrow> int \<Rightarrow> loop_state \<Rightarrow> error + loop_state" where
  "count_word st window word s =
     (case (if levels st > 1
            then add_to_pyramid st (the_bag s) word (last_word s)
                   (int window - int (repeat_words s div 2))
            else Inr (add_to_bag st (the_bag s) word (last_word s))) of
        Inl e \<Rightarrow> Inl e
      | Inr (repeat_word, bag') \<Rightarrow>
          Inr (if repeat_word
               then s\<lparr>the_bag := bag', repeat_words := repeat_words s + 1\<rparr>
               else s\<lparr>the_bag := bag', last_word := word, repeat_words := 0\<rparr>))"

text \<open>One iteration of the loop of \<^verbatim>\<open>_transform_case\<close>.\<close>

definition transform_window :: "sfa \<Rightarrow> real list list \<Rightarrow> nat \<Rightarrow> loop_state \<Rightarrow> error + loop_state" where
  "transform_window st dfts window s =
     (let word_raw = window_word st (dfts ! window);
          s1 = s\<lparr>word_array := (word_array s)[window := word_raw]\<rparr>
      in case count_word st window word_raw s1 of
           Inl e \<Rightarrow> Inl e
         | Inr s2 \<Rightarrow>
            (case ngrams st (word_bits st \<le> 64) (\<lambda>w. w) (word_array s2) window word_raw
                    (the_bag s2) of
               Inl e \<Rightarrow> Inl e
             | Inr bag' \<Rightarrow> Inr (s2\<lparr>the_bag := bag'\<rparr>)))"

text \<open>A loop over the window indices that stops at the first exception.\<close>

fun run_windows :: "(nat \<Rightarrow> 's \<Rightarrow> error + 's) \<Rightarrow> nat list \<Rightarrow> 's \<Rightarrow> error + 's" where
  "run_windows step [] s = Inr s"
| "run_windows step (w # ws) s =
     (case step w s of Inl e \<Rightarrow> Inl e | Inr s' \<Rightarrow> run_windows step ws s')"

text \<open>
  \<^verbatim>\<open>_transform_case\<close> on the coefficient rows \<open>dfts\<close> of one series (the result of
  \<^verbatim>\<open>_mft\<close>, or \<^verbatim>\<open>supplied_dft\<close>): the bag and the words, which are kept only with
  \<^verbatim>\<open>save_words\<close>. The tracker starts at the sentinel \<open>-1\<close>.
\<close>

definition transform_case :: "sfa \<Rightarrow> real list list \<Rightarrow> error + bag \<times> int list" where
  "transform_case st dfts =
     (case run_windows (transform_window st dfts) [0..<length dfts]
             \<lparr>the_bag = Map.empty, last_word = - 1, repeat_words = 0,
              word_array = replicate (length dfts) 0\<rparr> of
        Inl e \<Rightarrow> Inl e
      | Inr s \<Rightarrow> Inr (the_bag s, if save_words st then word_array s else []))"

text \<open>A map over the series that stops at the first exception.\<close>

fun map_cases :: "('a \<Rightarrow> error + 'b) \<Rightarrow> 'a list \<Rightarrow> error + 'b list" where
  "map_cases f [] = Inr []"
| "map_cases f (x # xs) =
     (case f x of
        Inl e \<Rightarrow> Inl e
      | Inr y \<Rightarrow> (case map_cases f xs of Inl e \<Rightarrow> Inl e | Inr ys \<Rightarrow> Inr (y # ys)))"

text \<open>
  \<^verbatim>\<open>_transform\<close> on the coefficient rows of every series: the bags in the order of the
  series, and the object, whose \<^verbatim>\<open>words\<close> are set with \<^verbatim>\<open>save_words\<close>. Unpacking
  \<^verbatim>\<open>zip(*transform)\<close> raises on an empty collection.
\<close>

definition transform :: "sfa \<Rightarrow> real list list list \<Rightarrow> error + bag list \<times> sfa" where
  "transform st X =
     (case map_cases (transform_case st) X of
        Inl e \<Rightarrow> Inl e
      | Inr res \<Rightarrow>
          if res = [] then Inl ValueError
          else Inr (map fst res, if save_words st then st\<lparr>words := map snd res\<rparr> else st))"

section \<open>Word-length shortening\<close>

text \<open>
  \<^verbatim>\<open>_shorten_words\<close>: \<^verbatim>\<open>word >> amount * letter_bits\<close> with
  \<^verbatim>\<open>amount = word_length - word_len\<close>, an arithmetic 64-bit shift while
  \<^verbatim>\<open>word_bits <= 64\<close> and a shift of a Python integer otherwise (the saved words of a
  transformer with more than 64 bits are taken to be Python integers).
\<close>

definition shorten_word :: "int \<Rightarrow> int \<Rightarrow> int \<Rightarrow> int" where
  "shorten_word word amount lb =
     sint (signed_drop_bit (nat (amount * lb)) (word_of_int word :: 64 word))"

definition shorten_word_large :: "sfa \<Rightarrow> int \<Rightarrow> int \<Rightarrow> int" where
  "shorten_word_large st word amount = drop_bit (nat (amount * letter_bits st)) word"

definition shorten_words :: "sfa \<Rightarrow> int \<Rightarrow> int \<Rightarrow> int" where
  "shorten_words st word word_len =
     (if word_bits st \<le> 64
      then shorten_word word (word_length st - word_len) (letter_bits st)
      else shorten_word_large st word (word_length st - word_len))"

text \<open>One iteration of the loop of \<^verbatim>\<open>_shorten_case\<close> over the saved words \<open>ws\<close>.\<close>

definition shorten_window :: "sfa \<Rightarrow> int \<Rightarrow> int list \<Rightarrow> nat \<Rightarrow> loop_state \<Rightarrow> error + loop_state" where
  "shorten_window st word_len ws window s =
     (let new_word = shorten_words st (ws ! window) word_len
      in case count_word st window new_word s of
           Inl e \<Rightarrow> Inl e
         | Inr s2 \<Rightarrow>
            (case ngrams st False (\<lambda>w. shorten_words st w word_len) ws window new_word
                    (the_bag s2) of
               Inl e \<Rightarrow> Inl e
             | Inr bag' \<Rightarrow> Inr (s2\<lparr>the_bag := bag'\<rparr>)))"

text \<open>\<^verbatim>\<open>_shorten_case(word_len, i)\<close> on \<open>ws\<close>, the saved words of series \<open>i\<close>.\<close>

definition shorten_case :: "sfa \<Rightarrow> int \<Rightarrow> int list \<Rightarrow> error + bag" where
  "shorten_case st word_len ws =
     (case run_windows (shorten_window st word_len ws) [0..<length ws]
             \<lparr>the_bag = Map.empty, last_word = - 1, repeat_words = 0, word_array = []\<rparr> of
        Inl e \<Rightarrow> Inl e
      | Inr s \<Rightarrow> Inr (the_bag s))"

text \<open>
  \<^verbatim>\<open>_shorten_bags\<close>: the check of \<^verbatim>\<open>save_words\<close>, the clamp of the target length, and
  one bag for each series of saved words.
\<close>

definition shorten_bags :: "sfa \<Rightarrow> int \<Rightarrow> error + bag list" where
  "shorten_bags st word_len =
     (if \<not> save_words st then Inl ValueError
      else (let word_len' = (if word_len > word_length st then word_length st else word_len)
            in map_cases (shorten_case st word_len') (words st)))"

section \<open>FourierCoder\<close>

text \<open>
  \<^verbatim>\<open>np.std\<close>, the population standard deviation. (On an empty array numpy gives NaN;
  the model gives 0.)
\<close>

definition np_mean :: "real list \<Rightarrow> real" where
  "np_mean xs = sum_list xs / real (length xs)"

definition np_std :: "real list \<Rightarrow> real" where
  "np_std xs = sqrt (sum_list (map (\<lambda>x. (x - np_mean xs)\<^sup>2) xs) / real (length xs))"

text \<open>
  The two sums of the inner loop of \<^verbatim>\<open>_discrete_fourier_transform\<close> for the
  frequency \<open>i\<close>.
\<close>

definition dft_real :: "real list \<Rightarrow> nat \<Rightarrow> real" where
  "dft_real series i =
     (\<Sum>n \<leftarrow> [0..<length series].
        series ! n * cos (2 * pi * real n * real i / real (length series)))"

definition dft_imag :: "real list \<Rightarrow> nat \<Rightarrow> real" where
  "dft_imag series i =
     (\<Sum>n \<leftarrow> [0..<length series].
        - series ! n * sin (2 * pi * real n * real i / real (length series)))"

text \<open>\<^verbatim>\<open>dft[1::2] = dft[1::2] * -1\<close>: the entries at odd positions change sign.\<close>

definition negate_odd :: "real list \<Rightarrow> real list" where
  "negate_odd xs = map (\<lambda>k. if odd k then - (xs ! k) else xs ! k) [0..<length xs]"

text \<open>
  \<^verbatim>\<open>_discrete_fourier_transform\<close>. The array has \<^verbatim>\<open>output_length - start\<close> zeros
  (\<^verbatim>\<open>np.zeros\<close> raises on a negative size); the loop fills the pairs of the
  frequencies from \<open>c\<close> up to \<^verbatim>\<open>int(output_length / 2)\<close>, and a last odd slot stays
  zero. With \<^verbatim>\<open>apply_normalising_factor\<close> the standard deviation of the window divides
  the result, and it is replaced by 1 only when it is equal to 0.
\<close>

definition discrete_fourier_transform ::
  "real list \<Rightarrow> int \<Rightarrow> bool \<Rightarrow> real \<Rightarrow> bool \<Rightarrow> bool \<Rightarrow> bool \<Rightarrow> error + real list" where
  "discrete_fourier_transform series dl nrm inv_sqrt lb apply_normalising_factor
       cut_start_if_norm =
     (let start0 = (if nrm then 2 else 0);
          output_length = start0 + dl;
          c = (if cut_start_if_norm then start0 div 2 else 0);
          start = (if cut_start_if_norm then start0 else 0)
      in if output_length - start < 0 then Inl ValueError
         else
          (let pairs = concat (map (\<lambda>i. [dft_real series i, dft_imag series i])
                                 [nat c..<nat (output_length div 2)]);
               dft = pairs @ replicate (nat (output_length - start) - length pairs) 0
           in if apply_normalising_factor
              then (let dft1 = (if lb then negate_odd dft else dft);
                        std0 = np_std series;
                        std = (if std0 = 0 then 1 else std0)
                    in Inr (map (\<lambda>x. x * (inv_sqrt / std)) dft1))
              else Inr dft))"

text \<open>
  \<^verbatim>\<open>np.fft.rfft\<close>, by its documentation: the frequencies \<open>0\<close> to \<open>n div 2\<close> of the
  transform of a real input of length \<open>n\<close>, as pairs of real and imaginary part; it
  raises on an empty input.
\<close>

definition rfft :: "real list \<Rightarrow> error + (real \<times> real) list" where
  "rfft xs =
     (if xs = [] then Inl ValueError
      else Inr (map (\<lambda>k. (dft_real xs k, dft_imag xs k)) [0..<length xs div 2 + 1]))"

text \<open>
  Python's \<^verbatim>\<open>xs[0:k]\<close> and \<^verbatim>\<open>xs[i]\<close>: a negative bound or index counts from the
  end, and an index outside the list raises.
\<close>

definition slice0 :: "'a list \<Rightarrow> int \<Rightarrow> 'a list" where
  "slice0 xs k = (if 0 \<le> k then take (nat k) xs else take (nat (int (length xs) + k)) xs)"

definition item :: "'a list \<Rightarrow> int \<Rightarrow> error + 'a" where
  "item xs i =
     (let n = int (length xs); j = (if i < 0 then n + i else i)
      in if 0 \<le> j \<and> j < n then Inr (xs ! nat j) else Inl IndexError)"

text \<open>
  A numpy assignment of the values \<open>vs\<close> to a slice of \<open>slots\<close> places: the lengths
  agree, or the single value is repeated, or it raises.
\<close>

definition assign_slice :: "nat \<Rightarrow> 'a list \<Rightarrow> error + 'a list" where
  "assign_slice slots vs =
     (if length vs = slots then Inr vs
      else if length vs = 1 then Inr (replicate slots (hd vs))
      else Inl ValueError)"

text \<open>The array whose even places hold \<open>xs\<close> and whose odd places hold \<open>ys\<close>.\<close>

fun interleave :: "'a list \<Rightarrow> 'a list \<Rightarrow> 'a list" where
  "interleave (x # xs) (y # ys) = x # y # interleave xs ys"
| "interleave xs [] = xs"
| "interleave [] ys = ys"

section \<open>IncrementalWindowTransformer\<close>

text \<open>The floor of the standard deviation: \<^verbatim>\<open>buf if buf > 1e-8 else 1\<close>.\<close>

definition std_floor :: "real \<Rightarrow> real" where
  "std_floor buf = (if buf > 1 / 10 ^ 8 then buf else 1)"

text \<open>
  The loop of \<^verbatim>\<open>_calc_incremental_mean_std\<close> over the windows after the first: the
  sum and the sum of squares move on by the entering and the leaving sample.
\<close>

fun incremental_stds ::
  "real list \<Rightarrow> int \<Rightarrow> real \<Rightarrow> nat list \<Rightarrow> real \<Rightarrow> real \<Rightarrow> error + real list" where
  "incremental_stds series ws r [] series_sum square_sum = Inr []"
| "incremental_stds series ws r (w # rest) series_sum square_sum =
     (case item series (int w + ws - 1) of
        Inl e \<Rightarrow> Inl e
      | Inr x_in \<Rightarrow>
         (case item series (int w - 1) of
            Inl e \<Rightarrow> Inl e
          | Inr x_out \<Rightarrow>
             (let series_sum' = series_sum + (x_in - x_out);
                  mean = series_sum' * r;
                  square_sum' = square_sum + (x_in * x_in - x_out * x_out);
                  buf = sqrt (square_sum' * r - mean * mean)
              in case incremental_stds series ws r rest series_sum' square_sum' of
                   Inl e \<Rightarrow> Inl e
                 | Inr stds \<Rightarrow> Inr (std_floor buf # stds))))"

text \<open>
  \<^verbatim>\<open>_calc_incremental_mean_std\<close>: one floored standard deviation for each of the
  \<open>end\<close> windows. \<^verbatim>\<open>1 / window_size\<close> raises at zero.
\<close>

definition calc_incremental_mean_std :: "real list \<Rightarrow> nat \<Rightarrow> int \<Rightarrow> error + real list" where
  "calc_incremental_mean_std series end ws =
     (let window = slice0 series ws;
          series_sum = sum_list window;
          square_sum = sum_list (map (\<lambda>x. x * x) window)
      in if ws = 0 then Inl ZeroDivisionError
         else
          (let r = 1 / real_of_int ws;
               mean = series_sum * r;
               buf = sqrt (square_sum * r - mean * mean)
           in if end = 0 then Inl IndexError
              else case incremental_stds series ws r [1..<end] series_sum square_sum of
                     Inl e \<Rightarrow> Inl e
                   | Inr stds \<Rightarrow> Inr (std_floor buf # stds)))"

text \<open>
  \<^verbatim>\<open>_get_phis\<close>: the rotation factors, a pair for each frequency below
  \<^verbatim>\<open>int(length / 2)\<close>; the division by \<^verbatim>\<open>window_size\<close> raises at zero.
\<close>

definition get_phis :: "int \<Rightarrow> int \<Rightarrow> error + real list" where
  "get_phis ws len =
     (if len < 0 then Inl ValueError
      else if ws = 0 \<and> 1 \<le> len div 2 then Inl ZeroDivisionError
      else Inr (concat (map (\<lambda>i. [cos (2 * pi * (- real i) / real_of_int ws),
                                    - sin (2 * pi * (- real i) / real_of_int ws)])
                          [0..<nat (len div 2)])
                @ replicate (nat len - 2 * nat (len div 2)) 0))"

text \<open>
  The inner loop of \<^verbatim>\<open>_iterate_mft\<close>: every pair of the running coefficients takes the
  entering sample, drops the leaving one and is rotated by its factor. The rows have an
  even length (\<^verbatim>\<open>dft_length\<close> is made even), so the last two equations are not reached.
\<close>

fun rotate_pairs :: "real list \<Rightarrow> real list \<Rightarrow> real \<Rightarrow> real list" where
  "rotate_pairs (re # im # rest) (p # q # phis) delta =
     ((re + delta) * p - im * q) # ((re + delta) * q + p * im) # rotate_pairs rest phis delta"
| "rotate_pairs mft_data [] delta = mft_data"
| "rotate_pairs mft_data phis delta = mft_data"

text \<open>
  The outer loop of \<^verbatim>\<open>_iterate_mft\<close> over the windows \<open>1\<close> to
  \<^verbatim>\<open>len(transformed) - 1\<close>: the row of window \<open>i\<close> is the running coefficients times
  \<^verbatim>\<open>inverse_sqrt_win_size / stds[i]\<close>.
\<close>

fun iterate_mft ::
  "real list \<Rightarrow> real list \<Rightarrow> real list \<Rightarrow> int \<Rightarrow> real list \<Rightarrow> real \<Rightarrow> nat list \<Rightarrow>
   error + real list list" where
  "iterate_mft series mft_data phis ws stds inv_sqrt [] = Inr []"
| "iterate_mft series mft_data phis ws stds inv_sqrt (i # rest) =
     (case item series (int i + ws - 1) of
        Inl e \<Rightarrow> Inl e
      | Inr x_in \<Rightarrow>
         (case item series (int i - 1) of
            Inl e \<Rightarrow> Inl e
          | Inr x_out \<Rightarrow>
             (let mft_data' = rotate_pairs mft_data phis (x_in - x_out)
              in case item stds (int i) of
                   Inl e \<Rightarrow> Inl e
                 | Inr sd \<Rightarrow>
                    (case iterate_mft series mft_data' phis ws stds inv_sqrt rest of
                       Inl e \<Rightarrow> Inl e
                     | Inr rows \<Rightarrow> Inr (map (\<lambda>x. x * (inv_sqrt / sd)) mft_data' # rows)))))"

text \<open>
  The seed of \<^verbatim>\<open>_mft\<close>: the unnormalised coefficients of the first window, by the
  direct transform or, without \<^verbatim>\<open>_use_fallback_dft\<close>, by \<^verbatim>\<open>np.fft.rfft\<close>, whose
  first \<^verbatim>\<open>length / 2\<close> values are assigned to the even and to the odd places.
\<close>

definition mft_seed :: "sfa \<Rightarrow> real list \<Rightarrow> int \<Rightarrow> error + real list" where
  "mft_seed st series len =
     (if priv_use_fallback_dft st
      then discrete_fourier_transform (slice0 series (window_size st)) (dft_length st)
             (norm_opt st) (inverse_sqrt_win_size st)
             (lower_bounding st \<or> lower_bounding_distances st) False False
      else case rfft (slice0 series (window_size st)) of
             Inl e \<Rightarrow> Inl e
           | Inr X_fft \<Rightarrow>
              (if len < 0 then Inl ValueError
               else case assign_slice ((nat len + 1) div 2)
                           (map fst (take (nat (len div 2)) X_fft)) of
                      Inl e \<Rightarrow> Inl e
                    | Inr evens \<Rightarrow>
                       (case assign_slice (nat len div 2)
                               (map snd (take (nat (len div 2)) X_fft)) of
                          Inl e \<Rightarrow> Inl e
                        | Inr odds \<Rightarrow> Inr (interleave evens odds))))"

text \<open>
  The end of \<^verbatim>\<open>_mft\<close>: with \<^verbatim>\<open>lower_bounding\<close> the odd columns change sign, the
  first \<^verbatim>\<open>start_offset\<close> columns are cut off, and with \<^verbatim>\<open>anova\<close> the columns of
  the support are selected, where an index beyond the row raises.
\<close>

definition mft_output :: "sfa \<Rightarrow> real list list \<Rightarrow> error + real list list" where
  "mft_output st transformed =
     (let start_offset = (if norm_opt st then 2 else 0);
          flipped = (if lower_bounding st then map negate_odd transformed else transformed);
          cut = map (drop start_offset) flipped
      in if anova st
         then (if \<forall>row \<in> set cut. \<forall>j \<in> set (support st). j < length row
               then Inr (map (\<lambda>row. map (\<lambda>j. row ! j) (support st)) cut)
               else Inl IndexError)
         else Inr cut)"

text \<open>
  \<^verbatim>\<open>_mft\<close>: the coefficient rows of all sliding windows of a series. There are
  \<^verbatim>\<open>end = max(1, len(series) - window_size + 1)\<close> rows of \<^verbatim>\<open>length\<close> entries, and the
  seed has to have the length of a row.
\<close>

definition mft :: "sfa \<Rightarrow> real list \<Rightarrow> error + real list list" where
  "mft st series =
     (let start_offset = (if norm_opt st then 2 else 0);
          len = dft_length st + start_offset + dft_length st mod 2;
          end = nat (max 1 (int (length series) - window_size st + 1))
      in case get_phis (window_size st) len of
           Inl e \<Rightarrow> Inl e
         | Inr phis \<Rightarrow>
          (case calc_incremental_mean_std series end (window_size st) of
             Inl e \<Rightarrow> Inl e
           | Inr stds \<Rightarrow>
            (case mft_seed st series len of
               Inl e \<Rightarrow> Inl e
             | Inr mft_data \<Rightarrow>
                if length mft_data \<noteq> nat len then Inl ValueError
                else
                 (case iterate_mft series mft_data phis (window_size st) stds
                         (inverse_sqrt_win_size st) [1..<end] of
                    Inl e \<Rightarrow> Inl e
                  | Inr rows \<Rightarrow>
                     mft_output st
                       (map (\<lambda>x. x * inverse_sqrt_win_size st / hd stds) mft_data # rows)))))"

section \<open>BreakpointLearner\<close>

text \<open>Python's \<^verbatim>\<open>round\<close> on a float: to the nearest integer, a tie to the even one.\<close>

definition py_round :: "real \<Rightarrow> int" where
  "py_round x =
     (let f = \<lfloor>x\<rfloor>; d = x - of_int f
      in if d < 1 / 2 then f else if d > 1 / 2 then f + 1
         else if even f then f else f + 1)"

text \<open>
  One letter row of \<^verbatim>\<open>_mcb\<close>: the column of the rounded coefficients is sorted; the
  equi-depth thresholds are read at the indices \<^verbatim>\<open>int(bin_index)\<close>, where
  \<^verbatim>\<open>bin_index\<close> has grown by \<^verbatim>\<open>total_num_windows / alphabet_size\<close> each time; the
  equi-width thresholds divide the range of the column. Reading an empty column raises.
  The last entry of the row is \<^verbatim>\<open>sys.float_info.max\<close>.
\<close>

definition mcb_column :: "real list list \<Rightarrow> int \<Rightarrow> nat \<Rightarrow> real list" where
  "mcb_column dft tot letter =
     sort (map (\<lambda>i. real_of_int (py_round (dft ! i ! letter * 100)) / 100) [0..<nat tot])"

definition mcb_row :: "sfa \<Rightarrow> real list list \<Rightarrow> int \<Rightarrow> nat \<Rightarrow> error + real list" where
  "mcb_row st dft tot letter =
     (let a = nat (alphabet_size st);
          column = mcb_column dft tot letter;
          zeros = replicate a 0
      in if binning_method st = ''equi-depth''
         then (if column = [] \<and> 1 \<le> a - 1 then Inl IndexError
               else Inr ((map (\<lambda>bp. column !
                                 nat \<lfloor>real (bp + 1) * (real_of_int tot / real_of_int (alphabet_size st))\<rfloor>)
                            [0..<a - 1] @ drop (a - 1) zeros)[a - 1 := float_max]))
         else if binning_method st = ''equi-width''
         then (if column = [] then Inl IndexError
               else (let target_bin_width =
                           (last column - hd column) / real_of_int (alphabet_size st)
                     in Inr ((map (\<lambda>bp. real (bp + 1) * target_bin_width + hd column)
                                [0..<a - 1] @ drop (a - 1) zeros)[a - 1 := float_max])))
         else Inr (zeros[a - 1 := float_max]))"

text \<open>
  \<^verbatim>\<open>_mcb\<close>: \<^verbatim>\<open>math.ceil(n_timepoints / window_size)\<close> windows for each series, and
  one row for each letter.
\<close>

definition mcb :: "sfa \<Rightarrow> real list list \<Rightarrow> error + real list list" where
  "mcb st dft =
     (if window_size st = 0 then Inl ZeroDivisionError
      else (let num_windows_per_inst =
                  \<lceil>real_of_int (n_timepoints st) / real_of_int (window_size st)\<rceil>;
                total_num_windows = n_cases st * num_windows_per_inst
            in if alphabet_size st < 0 then Inl ValueError
               else map_cases (mcb_row st dft total_num_windows) [0..<nat (word_length st)]))"

text \<open>
  \<^verbatim>\<open>_igb\<close> and \<^verbatim>\<open>_igb_mae\<close> (the same body around two scikit-learn trees):
  \<open>thresholds i\<close> are the split thresholds of the tree fitted on the column of letter
  \<open>i\<close>. They fill the row from the left (an index beyond the row raises), the other
  slots get \<^verbatim>\<open>sys.float_info.max\<close>, and \<^verbatim>\<open>np.sort\<close> sorts each row.
\<close>

definition igb_row :: "sfa \<Rightarrow> real list \<Rightarrow> error + real list" where
  "igb_row st threshold =
     (let a = nat (alphabet_size st)
      in if length threshold > a then Inl IndexError
         else Inr (sort (threshold @ replicate (a - length threshold) float_max)))"

definition igb :: "sfa \<Rightarrow> (nat \<Rightarrow> real list) \<Rightarrow> error + real list list" where
  "igb st thresholds =
     (if alphabet_size st < 0 then Inl ValueError
      else map_cases (\<lambda>i. igb_row st (thresholds i)) [0..<nat (word_length st)])"

text \<open>
  \<^verbatim>\<open>_k_bins_discretizer\<close>: \<open>breaks i\<close> are the bin edges scikit-learn's
  \<^verbatim>\<open>KBinsDiscretizer\<close> returns for letter \<open>i\<close>. The inner edges fill the row from
  the left, the slots they do not reach stay 0, and the last entry is
  \<^verbatim>\<open>sys.float_info.max\<close>.
\<close>

definition k_bins_row :: "sfa \<Rightarrow> real list \<Rightarrow> error + real list" where
  "k_bins_row st edges =
     (let a = nat (alphabet_size st);
          inner = butlast (tl edges)
      in if length inner > a then Inl IndexError
         else if a = 0 then Inl IndexError
         else Inr ((inner @ replicate (a - length inner) 0)[a - 1 := float_max]))"

definition k_bins_discretizer :: "sfa \<Rightarrow> (nat \<Rightarrow> real list) \<Rightarrow> error + real list list" where
  "k_bins_discretizer st breaks =
     (if alphabet_size st < 0 then Inl ValueError
      else map_cases (\<lambda>i. k_bins_row st (breaks i)) [0..<nat (word_length st)])"

section \<open>Orchestrator: binning and the transform of one series\<close>

text \<open>
  Python's \<^verbatim>\<open>xs[a:b]\<close>: a negative bound counts from the end, and both bounds are
  clipped to the list.
\<close>

definition py_slice :: "'a list \<Rightarrow> int \<Rightarrow> int \<Rightarrow> 'a list" where
  "py_slice xs a b =
     (let n = int (length xs);
          lo = (if a < 0 then max 0 (n + a) else min a n);
          hi = (if b < 0 then max 0 (n + b) else min b n)
      in take (nat (hi - lo)) (drop (nat lo) xs))"

text \<open>
  \<^verbatim>\<open>_fast_fourier_transform\<close>: the standard deviation of the window with the floor
  \<^verbatim>\<open>s if s > 1e-8 else 1\<close>, the first \<^verbatim>\<open>length / 2\<close> values of \<^verbatim>\<open>np.fft.rfft\<close>
  assigned to the even and to the odd places, the sign of the odd places under lower
  bounding, the normalising factor, and the cut of the first \<^verbatim>\<open>start\<close> places.
\<close>

definition fast_fourier_transform :: "sfa \<Rightarrow> real list \<Rightarrow> error + real list" where
  "fast_fourier_transform st series =
     (let start = (if norm_opt st then 2 else 0);
          s = np_std series;
          std = (if s > 1 / 10 ^ 8 then s else 1)
      in case rfft series of
           Inl e \<Rightarrow> Inl e
         | Inr X_fft \<Rightarrow>
            (let len = start + dft_length st
             in if len < 0 then Inl ValueError
                else case assign_slice ((nat len + 1) div 2)
                            (map fst (take (nat (len div 2)) X_fft)) of
                       Inl e \<Rightarrow> Inl e
                     | Inr evens \<Rightarrow>
                        (case assign_slice (nat len div 2)
                                (map snd (take (nat (len div 2)) X_fft)) of
                           Inl e \<Rightarrow> Inl e
                         | Inr odds \<Rightarrow>
                            (let dft = interleave evens odds;
                                 dft1 = (if lower_bounding st \<or> lower_bounding_distances st
                                         then negate_odd dft else dft)
                             in Inr (drop (nat start)
                                       (map (\<lambda>x. x * (inverse_sqrt_win_size st / std)) dft1))))))"

text \<open>
  \<^verbatim>\<open>_binning_dft\<close>: \<^verbatim>\<open>np.split\<close> cuts the series at the multiples of
  \<^verbatim>\<open>window_size\<close> that \<^verbatim>\<open>np.linspace\<close> lists (it raises on a negative count), the
  last piece is replaced by the last \<^verbatim>\<open>window_size\<close> points of the series, and every
  piece is transformed, by the direct transform with \<^verbatim>\<open>_use_fallback_dft\<close> and by the
  fast one otherwise. Both return \<^verbatim>\<open>dft_length\<close> values, the length of a row of
  \<^verbatim>\<open>result\<close>, whose allocation raises on a negative length.
\<close>

definition binning_dft :: "sfa \<Rightarrow> real list \<Rightarrow> int \<Rightarrow> error + real list list" where
  "binning_dft st series num_windows_per_inst =
     (if num_windows_per_inst - 1 < 0 then Inl ValueError
      else if dft_length st < 0 then Inl ValueError
      else
       (let ws = window_size st;
            pieces = map (\<lambda>j. py_slice series (int j * ws) (int (j + 1) * ws))
                       [0..<nat (num_windows_per_inst - 1)];
            split = pieces @ [py_slice series (n_timepoints st - ws) (n_timepoints st)]
        in map_cases
             (\<lambda>row. if priv_use_fallback_dft st
                    then discrete_fourier_transform row (dft_length st) (norm_opt st)
                           (inverse_sqrt_win_size st)
                           (lower_bounding st \<or> lower_bounding_distances st) True True
                    else fast_fourier_transform st row)
             split))"

text \<open>
  The selection of the coefficients under \<^verbatim>\<open>anova\<close> with labels: \<open>ranked\<close> is the
  array \<^verbatim>\<open>non_constant[np.argsort(-f)]\<close>, the non-constant columns in the order of
  their F-score (scikit-learn's \<^verbatim>\<open>f_classif\<close>). The support changes only when there
  are at least \<^verbatim>\<open>word_length\<close> of them; the columns of the support are selected (an
  index beyond the \<^verbatim>\<open>dft_length\<close> columns raises) and \<^verbatim>\<open>dft_length\<close> becomes the largest index plus
  one, made even (\<^verbatim>\<open>np.max\<close> raises on an empty support).
\<close>

definition anova_select ::
  "sfa \<Rightarrow> nat list \<Rightarrow> real list list \<Rightarrow> error + real list list \<times> nat list \<times> int" where
  "anova_select st ranked dft =
     (let supp = (if word_length st \<le> int (length ranked)
                  then (if word_length st < 0
                        then take (nat (int (length ranked) + word_length st)) ranked
                        else take (nat (word_length st)) ranked)
                  else support st)
      in if \<exists>j \<in> set supp. dft_length st \<le> int j then Inl IndexError
         else if supp = [] then Inl ValueError
         else (let dl = int (Max (set supp)) + 1
               in Inr (map (\<lambda>row. map (\<lambda>j. row ! j) supp) dft, supp, dl + dl mod 2)))"

text \<open>
  \<^verbatim>\<open>_binning\<close>: \<^verbatim>\<open>math.ceil(n_timepoints / window_size)\<close> windows of every series
  are transformed (the collection has \<^verbatim>\<open>n_cases\<close> series), the labels are repeated for
  the windows, the coefficients are selected under \<^verbatim>\<open>anova\<close>, and the learner of the
  binning method gets the coefficients. The calls into scikit-learn are arguments:
  \<open>ranked\<close> for \<^verbatim>\<open>f_classif\<close>, \<open>clf\<close> and \<open>reg\<close> for the split thresholds of the
  two trees, \<open>edges\<close> for the bin edges of \<^verbatim>\<open>KBinsDiscretizer\<close>. The result is the
  breakpoints with the \<^verbatim>\<open>support\<close> and the \<^verbatim>\<open>dft_length\<close> the function leaves.
\<close>

definition sfa_binning ::
  "(real list list \<Rightarrow> real list \<Rightarrow> nat list) \<Rightarrow>
   (real list list \<Rightarrow> real list option \<Rightarrow> nat \<Rightarrow> real list) \<Rightarrow>
   (real list list \<Rightarrow> real list option \<Rightarrow> nat \<Rightarrow> real list) \<Rightarrow>
   (real list list \<Rightarrow> nat \<Rightarrow> real list) \<Rightarrow> binning" where
  "sfa_binning ranked clf reg edges st X y =
     (if window_size st = 0 then Inl ZeroDivisionError
      else
       (let num_windows_per_inst =
              \<lceil>real_of_int (n_timepoints st) / real_of_int (window_size st)\<rceil>
        in case map_cases (\<lambda>series. binning_dft st series num_windows_per_inst) X of
             Inl e \<Rightarrow> Inl e
           | Inr per_case \<Rightarrow>
              (let dft = concat per_case;
                   labels = map_option
                              (\<lambda>v. concat (map (replicate (nat num_windows_per_inst)) v)) y
               in case (case labels of
                          None \<Rightarrow> Inr (dft, support st, dft_length st)
                        | Some v \<Rightarrow>
                            if anova st then anova_select st (ranked dft v) dft
                            else Inr (dft, support st, dft_length st)) of
                    Inl e \<Rightarrow> Inl e
                  | Inr (dft', supp, dl) \<Rightarrow>
                     (case (if binning_method st = ''information-gain''
                            then igb st (clf dft' labels)
                            else if binning_method st = ''information-gain-mae''
                            then igb st (reg dft' labels)
                            else if binning_method st = ''kmeans''
                            then k_bins_discretizer st (edges dft')
                            else mcb st dft') of
                        Inl e \<Rightarrow> Inl e
                      | Inr bps \<Rightarrow> Inr (bps, supp, dl)))))"

text \<open>
  \<^verbatim>\<open>_transform_case(X)\<close> on a series, as \<^verbatim>\<open>_transform\<close> calls it without
  \<^verbatim>\<open>keep_binning_dft\<close>: the coefficient rows are those of \<^verbatim>\<open>_mft\<close>.
\<close>

definition transform_series :: "sfa \<Rightarrow> real list \<Rightarrow> error + bag \<times> int list" where
  "transform_series st series =
     (case mft st series of Inl e \<Rightarrow> Inl e | Inr dfts \<Rightarrow> transform_case st dfts)"

section \<open>Concrete transformers\<close>

text \<open>
  The object the constructor returns for the given arguments (\<open>projr\<close> reads the
  result where the constructor does not raise), with numba enabled.
\<close>

definition constructed :: "sfa \<Rightarrow> sfa" where
  "constructed args = projr (init False args)"

text \<open>The arguments of the overflow boundary: 40 letters of 8 bits.\<close>

definition large_args :: sfa where
  "large_args = default_args\<lparr>word_length := 40, alphabet_size := 256, window_size := 64\<rparr>"

text \<open>A binning that learns nothing, for the closed statements about \<^verbatim>\<open>_fit\<close>.\<close>

definition no_binning :: binning where
  "no_binning st X y = Inr ([], support st, dft_length st)"

text \<open>
  The binning of a transformer that does not reach scikit-learn (equi-depth or
  equi-width binning, no labels): the four calls into it are given empty answers.
\<close>

definition plain_binning :: binning where
  "plain_binning = sfa_binning (\<lambda>dft v. []) (\<lambda>dft v i. []) (\<lambda>dft v i. []) (\<lambda>dft i. [])"

text \<open>
  A transformer with four letters of 16 bits on windows of six points, normalised, and
  with numerosity reduction as \<open>r\<close> says: \<^verbatim>\<open>SFA(word_length=4, alphabet_size=65536,
  window_size=6, norm=True, remove_repeat_words=r)\<close>, fitted without labels on the
  collection that holds the single series \<open>zs\<close>.
\<close>

definition ramp_args :: "bool \<Rightarrow> sfa" where
  "ramp_args r = default_args\<lparr>word_length := 4, alphabet_size := 65536, window_size := 6,
     norm_opt := True, remove_repeat_words := r\<rparr>"

definition ramp_sfa :: "bool \<Rightarrow> real list \<Rightarrow> sfa" where
  "ramp_sfa r zs = snd (fit plain_binning 1 (constructed (ramp_args r)) [[zs]] None)"

text \<open>
  A transformer with \<open>w\<close> letters over four symbols on windows of one point that saves
  its words and counts bigrams as \<open>b\<close> says: \<^verbatim>\<open>SFA(word_length=w, alphabet_size=4,
  window_size=1, bigrams=b, save_words=True)\<close>, fitted without labels on the collection
  that holds the single series \<open>[0, 1, 2, 3]\<close>.
\<close>

definition gram_args :: "bool \<Rightarrow> int \<Rightarrow> sfa" where
  "gram_args b w = default_args\<lparr>word_length := w, alphabet_size := 4, window_size := 1,
     bigrams := b, save_words := True\<rparr>"

definition gram_sfa :: "bool \<Rightarrow> int \<Rightarrow> sfa" where
  "gram_sfa b w = snd (fit plain_binning 1 (constructed (gram_args b w)) [[[0, 1, 2, 3]]] None)"

section \<open>Auxiliary notions for the proofs\<close>

text \<open>
  The letters of a word packed most significant first, \<open>lb\<close> bits each: on Python
  integers and on 64-bit words. These are the folds of \<^verbatim>\<open>_create_word_large\<close> and
  \<^verbatim>\<open>_create_word\<close> once every letter has found its bin.
\<close>

definition pack_int :: "nat \<Rightarrow> nat list \<Rightarrow> int" where
  "pack_int lb bs = fold (\<lambda>b w. push_bit lb w OR int b) bs 0"

definition pack_word :: "nat \<Rightarrow> nat list \<Rightarrow> 64 word" where
  "pack_word lb bs = fold (\<lambda>b w. push_bit lb w OR of_nat b) bs 0"

text \<open>Every letter of the first \<open>n\<close> coefficients of a row has a bin.\<close>

definition classifiable :: "real list \<Rightarrow> nat \<Rightarrow> int \<Rightarrow> real list list \<Rightarrow> bool" where
  "classifiable dft n a bps = (\<forall>i<n. find_bin (dft ! i) (bps ! i) a \<noteq> None)"

text \<open>The overflow boundary with a typed dictionary requested.\<close>

definition typed_args :: sfa where
  "typed_args = large_args\<lparr>typed_dict := True\<rparr>"

text \<open>A transformer whose alphabet is too small.\<close>

definition unary_args :: sfa where
  "unary_args = default_args\<lparr>alphabet_size := 1\<rparr>"

text \<open>
  A binning for the closed statements about the overflow boundary: 40 letter rows of 256
  breakpoints, 255 zeros and \<^verbatim>\<open>sys.float_info.max\<close>.
\<close>

definition large_binning :: binning where
  "large_binning st X y =
     Inr (replicate 40 (replicate 255 0 @ [float_max]), support st, dft_length st)"

text \<open>
  A fitted transformer with the default arguments and \<^verbatim>\<open>save_words\<close>, holding the
  words of one series of two windows.
\<close>

definition saving_args :: sfa where
  "saving_args = default_args\<lparr>save_words := True\<rparr>"

definition saving_sfa :: sfa where
  "saving_sfa =
     (snd (fit_validate 1 (constructed saving_args) False))
        \<lparr>n_cases := 1, n_timepoints := 13,
         breakpoints := replicate 8 [0, 0, 0, float_max], words := [[5, 5]]\<rparr>"

text \<open>The default arguments with the direct Fourier transform requested.\<close>

definition fallback_args :: sfa where
  "fallback_args = default_args\<lparr>use_fallback_dft := True\<rparr>"





text \<open>
  What \<^verbatim>\<open>_fit\<close> leaves in the object, as far as the encoder reads it: an alphabet of at
  least two symbols, a word of at least one letter, and the bit widths.
\<close>

definition fitted :: "sfa \<Rightarrow> bool" where
  "fitted st \<longleftrightarrow>
     2 \<le> alphabet_size st \<and> 1 \<le> word_length st
     \<and> letter_bits st = ceil_log2 (alphabet_size st)
     \<and> word_bits st = word_length st * letter_bits st
     \<and> max_bits st = (if bigrams st \<or> skip_grams st then word_bits st * 2 else word_bits st)"

text \<open>
  The transformer of the shortening equivalence, in the words of the specification: the
  one a fit from scratch with \<^verbatim>\<open>word_length = l\<close> gives (the same configuration and
  alphabet, the bit widths of \<open>l\<close> letters), with the breakpoints truncated to the first
  \<open>l\<close> letter rows.
\<close>

definition refit :: "sfa \<Rightarrow> int \<Rightarrow> sfa" where
  "refit st l =
     st\<lparr>word_length := l,
        word_bits := l * letter_bits st,
        max_bits := (if bigrams st \<or> skip_grams st then l * letter_bits st * 2
                     else l * letter_bits st),
        breakpoints := take (nat l) (breakpoints st)\<rparr>"

text \<open>The bag of a result of \<^verbatim>\<open>_transform_case\<close>, or its exception.\<close>

definition bag_of :: "error + bag \<times> int list \<Rightarrow> error + bag" where
  "bag_of r = (case r of Inl e \<Rightarrow> Inl e | Inr (bag, ws) \<Rightarrow> Inr bag)"

text \<open>
  Two states of the loop over the windows that agree on the bag and on the repeat
  tracker (the arrays of words may differ).
\<close>

definition same_tally :: "loop_state \<Rightarrow> loop_state \<Rightarrow> bool" where
  "same_tally s s' \<longleftrightarrow>
     the_bag s = the_bag s' \<and> last_word s = last_word s' \<and> repeat_words s = repeat_words s'"

section \<open>Properties\<close>

subsection \<open>Bit widths\<close>

lemma ceil_log2_eq: "2 ^ n < k \<Longrightarrow> k \<le> 2 ^ (n + 1) \<Longrightarrow> ceil_log2 k = int n + 1"
proof -
  assume a: "2 ^ n < k" "k \<le> 2 ^ (n + 1)"
  then have k: "0 < k" by (smt (verit) zero_less_power)
  have "2 ^ n < nat k" using a k by (simp add: nat_less_iff)
  moreover have "nat k \<le> 2 ^ (n + 1)" using a k by (simp add: nat_le_iff)
  ultimately have "\<lceil>log 2 (real (nat k))\<rceil> = int n + 1"
    using ceiling_log_nat_eq_if[of 2 n "nat k"] by simp
  then show ?thesis using k by (simp add: ceil_log2_def)
qed

lemma int_log2_eq: "2 ^ n \<le> k \<Longrightarrow> k < 2 ^ (n + 1) \<Longrightarrow> int_log2 k = int n"
proof -
  assume a: "2 ^ n \<le> k" "k < 2 ^ (n + 1)"
  then have k: "0 < k" by (smt (verit) zero_less_power)
  have "2 ^ n \<le> nat k" using a k by (simp add: nat_le_iff le_nat_iff)
  moreover have "nat k < 2 ^ (n + 1)" using a k by (simp add: nat_less_iff)
  ultimately have "\<lfloor>log 2 (real (nat k))\<rfloor> = int n"
    using floor_log_nat_eq_if[of 2 n "nat k"] by simp
  then show ?thesis using k by (simp add: int_log2_def)
qed

lemma ceil_log2_2: "ceil_log2 2 = 1"
  using ceil_log2_eq[of 0 2] by simp

lemma ceil_log2_3: "ceil_log2 3 = 2"
  using ceil_log2_eq[of 1 3] by simp

lemma int_log2_3: "int_log2 3 = 1"
  using int_log2_eq[of 1 3] by simp

lemma ceil_log2_256: "ceil_log2 256 = 8"
  using ceil_log2_eq[of 7 256] by simp

subsection \<open>Words\<close>

lemma create_word_Suc:
  "nat wl = Suc n \<Longrightarrow> create_word dft wl a bps lb =
     (case find_bin (dft ! n) (bps ! n) a of
        None \<Rightarrow> create_word dft (int n) a bps lb
      | Some bp \<Rightarrow> push_bit (nat lb) (create_word dft (int n) a bps lb) OR of_nat bp)"
  unfolding create_word_def by (simp split: option.split)

lemma create_word_const:
  "(\<forall>i<n. find_bin (dft ! i) (bps ! i) a = Some b) \<Longrightarrow>
    create_word dft (int n) a bps lb = ((\<lambda>w. push_bit (nat lb) w OR of_nat b) ^^ n) 0"
proof (induction n)
  case 0
  show ?case by (simp add: create_word_def)
next
  case (Suc n)
  then show ?case by (simp add: create_word_Suc[of _ n])
qed

subsection \<open>Packing letters into integers\<close>

lemma pack_int_snoc: "pack_int lb (bs @ [b]) = push_bit lb (pack_int lb bs) OR int b"
  by (simp add: pack_int_def)

lemma pack_word_snoc: "pack_word lb (bs @ [b]) = push_bit lb (pack_word lb bs) OR of_nat b"
  by (simp add: pack_word_def)

lemma pack_int_nonneg: "0 \<le> pack_int lb bs"
  by (induction bs rule: rev_induct) (simp_all add: pack_int_snoc, simp add: pack_int_def)

lemma pack_int_bound:
  "\<forall>b\<in>set bs. b < 2 ^ lb \<Longrightarrow> pack_int lb bs < 2 ^ (length bs * lb)"
proof (induction bs rule: rev_induct)
  case Nil
  show ?case by (simp add: pack_int_def)
next
  case (snoc b bs)
  then have ih: "pack_int lb bs < 2 ^ (length bs * lb)" by simp
  have b: "int b < 2 ^ lb" using snoc.prems
    by (metis in_set_conv_decomp of_nat_less_numeral_power_cancel_iff)
  have "push_bit lb (pack_int lb bs) < 2 ^ (length bs * lb + lb)"
    using ih by (simp add: push_bit_eq_mult power_add)
  moreover have "int b < 2 ^ (length bs * lb + lb)"
    using b by (smt (verit) le_add2 power_increasing)
  ultimately have "push_bit lb (pack_int lb bs) OR int b < 2 ^ (length bs * lb + lb)"
    by (intro OR_upper) (simp_all add: pack_int_nonneg)
  then show ?case by (simp add: pack_int_snoc add.commute)
qed

lemma drop_bit_letter: "b < 2 ^ lb \<Longrightarrow> drop_bit lb (int b) = 0"
  by (simp add: drop_bit_eq_div)

lemma pack_int_drop_last:
  "b < 2 ^ lb \<Longrightarrow> drop_bit lb (pack_int lb (bs @ [b])) = pack_int lb bs"
  by (simp add: pack_int_snoc drop_bit_letter drop_bit_push_bit_int)

lemma pack_int_take:
  "\<forall>b\<in>set bs. b < 2 ^ lb \<Longrightarrow> l \<le> length bs \<Longrightarrow>
     drop_bit ((length bs - l) * lb) (pack_int lb bs) = pack_int lb (take l bs)"
proof (induction bs rule: rev_induct)
  case Nil
  then show ?case by simp
next
  case (snoc b bs)
  show ?case
  proof (cases "l = Suc (length bs)")
    case True
    then show ?thesis by simp
  next
    case False
    then have l: "l \<le> length bs" using snoc.prems by simp
    have b: "b < 2 ^ lb" using snoc.prems by simp
    have "(length (bs @ [b]) - l) * lb = (length bs - l) * lb + lb"
      using l by (simp add: Suc_diff_le)
    then have "drop_bit ((length (bs @ [b]) - l) * lb) (pack_int lb (bs @ [b]))
        = drop_bit ((length bs - l) * lb) (drop_bit lb (pack_int lb (bs @ [b])))"
      by (simp add: drop_bit_drop_bit add.commute)
    also have "\<dots> = pack_int lb (take l bs)"
      using snoc l b by (simp add: pack_int_drop_last)
    finally show ?thesis using l by simp
  qed
qed

lemma pack_int_letter:
  assumes "\<forall>b\<in>set bs. b < 2 ^ lb" "j < length bs"
  shows "drop_bit ((length bs - Suc j) * lb) (pack_int lb bs) AND mask lb = int (bs ! j)"
proof -
  have "drop_bit ((length bs - Suc j) * lb) (pack_int lb bs) = pack_int lb (take (Suc j) bs)"
    using assms by (intro pack_int_take) simp_all
  also have "\<dots> = push_bit lb (pack_int lb (take j bs)) OR int (bs ! j)"
    using assms by (simp add: take_Suc_conv_app_nth pack_int_snoc)
  finally have "drop_bit ((length bs - Suc j) * lb) (pack_int lb bs) AND mask lb
      = take_bit lb (push_bit lb (pack_int lb (take j bs)) OR int (bs ! j))"
    by (simp add: take_bit_eq_mask)
  also have "\<dots> = int (bs ! j)"
    using assms by (simp add: take_bit_or take_bit_push_bit take_bit_int_eq_self)
  finally show ?thesis .
qed

lemma pack_word_int: "pack_word lb bs = word_of_int (pack_int lb bs)"
  by (induction bs rule: rev_induct)
     (simp_all add: pack_word_snoc pack_int_snoc, simp_all add: pack_word_def pack_int_def word_wi_log_defs[symmetric] push_bit_of_int)

lemma sint_pack_word:
  "\<forall>b\<in>set bs. b < 2 ^ lb \<Longrightarrow> length bs * lb < 64 \<Longrightarrow> sint (pack_word lb bs) = pack_int lb bs"
proof -
  assume a: "\<forall>b\<in>set bs. b < 2 ^ lb" "length bs * lb < 64"
  have "pack_int lb bs < 2 ^ (length bs * lb)" using a by (simp add: pack_int_bound)
  also have "(2::int) ^ (length bs * lb) \<le> 2 ^ 63" using a by (intro power_increasing) simp_all
  finally have "pack_int lb bs < 2 ^ 63" .
  then show ?thesis
    using pack_int_nonneg[of lb bs]
    by (simp add: pack_word_int sint_sbintrunc' signed_take_bit_int_eq_self)
qed


subsection \<open>The checks of fit\<close>

lemma typed_fields:
  "n_jobs (constructed typed_args) = IntJobs 1"
  "alphabet_size (constructed typed_args) = 256"
  "word_length (constructed typed_args) = 40"
  "binning_method (constructed typed_args) = ''equi-depth''"
  "priv_typed_dict (constructed typed_args)"
  "\<not> bigrams (constructed typed_args)" "\<not> skip_grams (constructed typed_args)"
  by (simp_all add: constructed_def init_def typed_args_def large_args_def default_args_def
      Let_def)

lemma fit_validate_error_kinds:
  "fst (fit_validate cpu st has_y) = Some e \<Longrightarrow> e = ValueError \<or> e = TypeError"
  by (auto simp: fit_validate_def check_n_jobs_def Let_def
      split: sum.splits n_jobs_arg.splits if_splits)

lemma fit_validate_breakpoints:
  "breakpoints (snd (fit_validate cpu st has_y)) = breakpoints st"
  by (auto simp: fit_validate_def check_n_jobs_def Let_def
      split: sum.splits n_jobs_arg.splits if_splits)

lemma fit_stops_at_validation:
  "fst (fit_validate cpu st (y \<noteq> None)) = Some e \<Longrightarrow>
     fit binning cpu st X y = fit_validate cpu st (y \<noteq> None)"
  by (cases "fit_validate cpu st (y \<noteq> None)") (simp add: fit_def)

lemma fit_validate_fails_iff:
  "(\<exists>e. fst (fit_validate cpu st has_y) = Some e) \<longleftrightarrow>
     (n_jobs st = OtherJobs \<or> alphabet_size st < 2 \<or> word_length st < 1
      \<or> ((binning_method st = ''information-gain''
           \<or> binning_method st = ''information-gain-mae'') \<and> \<not> has_y)
      \<or> binning_method st \<notin> binning_methods
      \<or> (priv_typed_dict st
          \<and> 64 < (if bigrams st \<or> skip_grams st
                   then word_length st * ceil_log2 (alphabet_size st) * 2
                   else word_length st * ceil_log2 (alphabet_size st)))
      \<or> (priv_typed_dict st \<and> 15 < levels st))"
  by (cases "n_jobs st") (auto simp: fit_validate_def check_n_jobs_def Let_def)

text \<open>
  C4 (amended). The checks at the head of \<^verbatim>\<open>_fit\<close> raise exactly when \<^verbatim>\<open>n_jobs\<close>
  is not an integer, or \<^verbatim>\<open>alphabet_size < 2\<close>, or \<^verbatim>\<open>word_length < 1\<close>, or an
  information-gain binning is requested without labels, or the binning method is not a
  known one, or a typed dictionary is requested with more than 64 bits per key or with
  more than 15 levels. Whenever they raise, the error is a \<^verbatim>\<open>ValueError\<close> or a
  \<^verbatim>\<open>TypeError\<close>, \<^verbatim>\<open>_fit\<close> ends there whatever the collection and the binning are (no
  series is looked at), and the breakpoints are those the object had before.
\<close>

theorem fit_configuration_errors:
  "((\<exists>e. fst (fit_validate cpu st (y \<noteq> None)) = Some e) \<longleftrightarrow>
     (n_jobs st = OtherJobs \<or> alphabet_size st < 2 \<or> word_length st < 1
      \<or> ((binning_method st = ''information-gain''
           \<or> binning_method st = ''information-gain-mae'') \<and> y = None)
      \<or> binning_method st \<notin> binning_methods
      \<or> (priv_typed_dict st
          \<and> 64 < (if bigrams st \<or> skip_grams st
                   then word_length st * ceil_log2 (alphabet_size st) * 2
                   else word_length st * ceil_log2 (alphabet_size st)))
      \<or> (priv_typed_dict st \<and> 15 < levels st)))
   \<and> (\<forall>e. fst (fit_validate cpu st (y \<noteq> None)) = Some e \<longrightarrow>
          (e = ValueError \<or> e = TypeError)
          \<and> fit binning cpu st X y = fit_validate cpu st (y \<noteq> None)
          \<and> breakpoints (snd (fit binning cpu st X y)) = breakpoints st)"
  using fit_validate_fails_iff[of cpu st "y \<noteq> None"]
  by (auto dest: fit_validate_error_kinds simp: fit_stops_at_validation fit_validate_breakpoints)

lemma typed_fails: "fst (fit_validate 1 (constructed typed_args) False) = Some ValueError"
  by (simp add: fit_validate_def check_n_jobs_def typed_fields binning_methods_def
      ceil_log2_256 Let_def)

text \<open>
  C4 as stated is false: the claim has \<^verbatim>\<open>_fit\<close> fail in the four listed cases only.
  A transformer of 40 letters over 256 symbols with a typed dictionary is in none of them,
  and \<^verbatim>\<open>_fit\<close> raises \<^verbatim>\<open>ValueError\<close> (more than 64 bits).
\<close>

theorem fit_fails_outside_the_four_cases:
  "fst (fit no_binning 1 (constructed typed_args) [] None) = Some ValueError
   \<and> \<not> (alphabet_size (constructed typed_args) < 2
        \<or> word_length (constructed typed_args) < 1
        \<or> binning_method (constructed typed_args) = ''information-gain''
        \<or> binning_method (constructed typed_args) = ''information-gain-mae''
        \<or> binning_method (constructed typed_args) \<notin> binning_methods)"
  using typed_fails
  by (simp add: fit_stops_at_validation[of _ _ None, simplified] typed_fields
      binning_methods_def)


subsection \<open>Decoding words\<close>

lemma alphabet_le_pow: "1 \<le> a \<Longrightarrow> a \<le> 2 ^ nat (ceil_log2 a)"
proof -
  assume a: "1 \<le> a"
  then have "0 \<le> log 2 (real_of_int a)" by simp
  then have nn: "0 \<le> ceil_log2 a" unfolding ceil_log2_def by linarith
  have "real_of_int a = 2 powr (log 2 (real_of_int a))" using a by simp
  also have "\<dots> \<le> 2 powr (real_of_int (ceil_log2 a))"
    by (intro powr_mono) (simp_all add: ceil_log2_def)
  also have "\<dots> = 2 ^ nat (ceil_log2 a)" using nn by (simp add: powr_realpow[symmetric])
  finally have "real_of_int a \<le> real_of_int (2 ^ nat (ceil_log2 a))" by simp
  then show ?thesis using of_int_le_iff by blast
qed

lemma find_bin_less: "find_bin x row a = Some bp \<Longrightarrow> int bp < a"
  by (auto simp: find_bin_def find_Some_iff)

lemma letters_less:
  assumes "classifiable dft (nat wl) a bps" "b \<in> set (create_word_full dft wl a bps lb)"
  shows "int b < a"
proof -
  from assms(2) obtain i where i: "i < nat wl"
    and b: "b = (case find_bin (dft ! i) (bps ! i) a of None \<Rightarrow> 0 | Some bp \<Rightarrow> bp)"
    by (auto simp: create_word_full_def)
  from assms(1) i obtain bp where "find_bin (dft ! i) (bps ! i) a = Some bp"
    by (auto simp: classifiable_def)
  then show ?thesis using b find_bin_less by simp
qed

lemma letters_fit:
  assumes "classifiable dft (nat wl) a bps" "a \<le> 2 ^ lb"
  shows "\<forall>b\<in>set (create_word_full dft wl a bps lb'). b < 2 ^ lb"
proof
  fix b assume "b \<in> set (create_word_full dft wl a bps lb')"
  then have "int b < a" using assms(1) letters_less by blast
  then have "int b < 2 ^ lb" using assms(2) by linarith
  then show "b < 2 ^ lb" by simp
qed

lemma length_letters: "length (create_word_full dft wl a bps lb) = nat wl"
  by (simp add: create_word_full_def)

lemma create_word_large_pack:
  assumes "classifiable dft (nat (word_length st)) (alphabet_size st) (breakpoints st)"
  shows "create_word_large st dft =
           pack_int (nat (letter_bits st))
             (create_word_full dft (word_length st) (alphabet_size st) (breakpoints st) lb')"
proof -
  let ?g = "\<lambda>i. case find_bin (dft ! i) (breakpoints st ! i) (alphabet_size st) of
                   None \<Rightarrow> 0 | Some bp \<Rightarrow> bp"
  have "create_word_large st dft =
          fold (\<lambda>i w. push_bit (nat (letter_bits st)) w OR int (?g i))
            [0..<nat (word_length st)] 0"
    unfolding create_word_large_def
    using assms by (intro fold_cong) (auto simp: classifiable_def)
  also have "\<dots> = pack_int (nat (letter_bits st)) (map ?g [0..<nat (word_length st)])"
    by (simp add: pack_int_def fold_map comp_def)
  finally show ?thesis by (simp add: create_word_full_def)
qed

lemma create_word_pack:
  assumes "classifiable dft (nat wl) a bps"
  shows "create_word dft wl a bps lb = pack_word (nat lb) (create_word_full dft wl a bps lb')"
proof -
  let ?g = "\<lambda>i. case find_bin (dft ! i) (bps ! i) a of None \<Rightarrow> 0 | Some bp \<Rightarrow> bp"
  have "create_word dft wl a bps lb =
          fold (\<lambda>i w. push_bit (nat lb) w OR of_nat (?g i)) [0..<nat wl] 0"
    unfolding create_word_def
    using assms by (intro fold_cong) (auto simp: classifiable_def)
  also have "\<dots> = pack_word (nat lb) (map ?g [0..<nat wl])"
    by (simp add: pack_word_def fold_map comp_def)
  finally show ?thesis by (simp add: create_word_full_def)
qed

lemma word_list_decodes:
  assumes lb: "0 \<le> letter_bits st" "letter_max st = 2 ^ nat (letter_bits st) - 1"
    and wb: "word_bits st = word_length st * letter_bits st" "1 \<le> word_length st"
    and lv: "level_bits st = 0" "levels st \<le> 1"
    and a: "alphabet_size st \<le> 2 ^ nat (letter_bits st)"
    and c: "classifiable dft (nat (word_length st)) (alphabet_size st) (breakpoints st)"
  shows "word_list st (create_word_large st dft) =
           (None,
            map int (create_word_full dft (word_length st) (alphabet_size st) (breakpoints st)
                       (letter_bits st)),
            None)"
proof -
  let ?bs = "create_word_full dft (word_length st) (alphabet_size st) (breakpoints st)
               (letter_bits st)"
  let ?lb = "nat (letter_bits st)"
  let ?n = "nat (word_length st)"
  have w: "create_word_large st dft = pack_int ?lb ?bs" using c by (rule create_word_large_pack)
  have fit: "\<forall>b\<in>set ?bs. b < 2 ^ ?lb" using c a by (rule letters_fit)
  have len: "length ?bs = ?n" by (simp add: length_letters)
  have bound: "pack_int ?lb ?bs < 2 ^ (?n * ?lb)" using pack_int_bound[OF fit] len by simp
  have nn: "0 \<le> pack_int ?lb ?bs" by (rule pack_int_nonneg)
  have letters: "word_letters st (pack_int ?lb ?bs) (word_bits st + level_bits st - letter_bits st)
                  = map int ?bs"
  proof (rule nth_equalityI)
    show "length (word_letters st (pack_int ?lb ?bs)
             (word_bits st + level_bits st - letter_bits st)) = length (map int ?bs)"
      by (simp add: word_letters_def len)
  next
    fix j assume "j < length (word_letters st (pack_int ?lb ?bs)
             (word_bits st + level_bits st - letter_bits st))"
    then have j: "j < ?n" by (simp add: word_letters_def)
    then have pos: "0 < word_length st" by simp
    have "word_bits st + level_bits st - letter_bits st - int j * letter_bits st
            = (word_length st - 1 - int j) * letter_bits st"
      using wb(1) lv by (simp add: algebra_simps)
    also have "\<dots> = int ((?n - Suc j) * ?lb)"
      using j lb(1) pos by (simp add: of_nat_diff)
    finally have "nat (word_bits st + level_bits st - letter_bits st - int j * letter_bits st)
            = (?n - Suc j) * ?lb" by (simp only: nat_int)
    then have sh: "nat (word_bits st + level_bits st - letter_bits st - int j * letter_bits st)
            = (length ?bs - Suc j) * ?lb" using len by simp
    have "word_letters st (pack_int ?lb ?bs) (word_bits st + level_bits st - letter_bits st) ! j
           = drop_bit ((length ?bs - Suc j) * ?lb) (pack_int ?lb ?bs) AND mask ?lb"
      using j sh by (simp add: word_letters_def lb(2) mask_eq_exp_minus_1)
    also have "\<dots> = int (?bs ! j)" using fit j len by (intro pack_int_letter) simp_all
    finally show "word_letters st (pack_int ?lb ?bs)
             (word_bits st + level_bits st - letter_bits st) ! j = map int ?bs ! j"
      using j len by simp
  qed
  have "?n * ?lb = nat (word_bits st)"
  proof (cases "0 \<le> word_length st")
    case True
    then show ?thesis using wb by (simp add: nat_mult_distrib)
  next
    case False
    then have "word_length st * letter_bits st \<le> 0"
      using lb(1) by (intro mult_nonpos_nonneg) simp_all
    then show ?thesis using False wb by simp
  qed
  then have "pack_int ?lb ?bs < 2 ^ nat (word_bits st)" using bound by simp
  then have "bitlen \<bar>pack_int ?lb ?bs\<bar> \<le> word_bits st + level_bits st"
    using nn lv wb lb(1) by (simp add: bitlen_le_iff_power)
  then show ?thesis using letters lv by (simp add: word_list_def w Let_def)
qed


subsection \<open>The overflow boundary and the decoder\<close>

lemma fit_success_fields:
  assumes "fst (fit binning cpu st X y) = None"
  shows "word_length (snd (fit binning cpu st X y)) = word_length st"
    and "alphabet_size (snd (fit binning cpu st X y)) = alphabet_size st"
    and "letter_bits (snd (fit binning cpu st X y)) = ceil_log2 (alphabet_size st)"
    and "letter_max (snd (fit binning cpu st X y)) = 2 ^ nat (ceil_log2 (alphabet_size st)) - 1"
    and "word_bits (snd (fit binning cpu st X y)) = word_length st * ceil_log2 (alphabet_size st)"
    and "levels (snd (fit binning cpu st X y)) = levels st"
    and "levels st \<le> 1 \<Longrightarrow> level_bits (snd (fit binning cpu st X y)) = level_bits st"
    and "2 \<le> alphabet_size st" and "1 \<le> word_length st"
proof -
  define hy where "hy = (y \<noteq> None)"
  have fit_eq: "fit binning cpu st X y =
     (case fit_validate cpu st hy of
        (Some e, st') \<Rightarrow> (Some e, st')
      | (None, st2) \<Rightarrow>
         (case squeeze1 X of
            Inl e \<Rightarrow> (Some e, st2)
          | Inr X1 \<Rightarrow>
             (let st3 = (if levels st2 > 1
                         then (let quadrants = (\<Sum>i \<leftarrow> [0..<nat (levels st2)]. 2 ^ i);
                                   lvb = ceil_log2 quadrants
                               in st2\<lparr>level_bits := lvb, level_max := 2 ^ nat lvb - 1\<rparr>)
                         else st2);
                  st4 = st3\<lparr>n_cases := int (length X1),
                            n_timepoints := (case X1 of [] \<Rightarrow> 0 | s # _ \<Rightarrow> int (length s))\<rparr>
              in case binning st4 X1 y of
                   Inl e \<Rightarrow> (Some e, st4)
                 | Inr (bps, supp, dl) \<Rightarrow>
                     (None, st4\<lparr>support := supp, dft_length := dl, breakpoints := bps\<rparr>))))"
    unfolding fit_def hy_def ..
  obtain r st2 where v: "fit_validate cpu st hy = (r, st2)" by (cases "fit_validate cpu st hy")
  have r: "r = None" using assms v unfolding fit_eq by (cases r) simp_all
  obtain j where j: "check_n_jobs cpu (n_jobs st) = Inr j"
    using v r by (cases "check_n_jobs cpu (n_jobs st)") (simp_all add: fit_validate_def)
  have a: "\<not> alphabet_size st < 2" and w: "\<not> word_length st < 1"
    using v r j by (simp_all add: fit_validate_def Let_def split: if_splits)
  show "2 \<le> alphabet_size st" "1 \<le> word_length st" using a w by simp_all
  have st2: "word_length st2 = word_length st" "alphabet_size st2 = alphabet_size st"
    "letter_bits st2 = ceil_log2 (alphabet_size st)"
    "letter_max st2 = 2 ^ nat (ceil_log2 (alphabet_size st)) - 1"
    "word_bits st2 = word_length st * ceil_log2 (alphabet_size st)"
    "levels st2 = levels st" "level_bits st2 = level_bits st"
    using v r j a w by (auto simp: fit_validate_def Let_def split: if_splits)
  obtain X1 where X1: "squeeze1 X = Inr X1"
    using assms v r unfolding fit_eq by (cases "squeeze1 X") simp_all
  define st3 where "st3 = (if levels st2 > 1
       then (let quadrants = (\<Sum>i \<leftarrow> [0..<nat (levels st2)]. 2 ^ i);
                 lvb = ceil_log2 quadrants
             in st2\<lparr>level_bits := lvb, level_max := 2 ^ nat lvb - 1\<rparr>)
       else st2)"
  define st4 where "st4 = st3\<lparr>n_cases := int (length X1),
       n_timepoints := (case X1 of [] \<Rightarrow> 0 | s # _ \<Rightarrow> int (length s))\<rparr>"
  have fit4: "fit binning cpu st X y = (case binning st4 X1 y of
                   Inl e \<Rightarrow> (Some e, st4)
                 | Inr (bps, supp, dl) \<Rightarrow>
                     (None, st4\<lparr>support := supp, dft_length := dl, breakpoints := bps\<rparr>))"
    unfolding fit_eq v r X1 st4_def st3_def by (simp add: Let_def)
  obtain bps supp dl where b: "binning st4 X1 y = Inr (bps, supp, dl)"
    using assms unfolding fit4 by (cases "binning st4 X1 y") auto
  have res: "snd (fit binning cpu st X y)
             = st4\<lparr>support := supp, dft_length := dl, breakpoints := bps\<rparr>"
    unfolding fit4 b by simp
  have st3: "word_length st3 = word_length st" "alphabet_size st3 = alphabet_size st"
    "letter_bits st3 = ceil_log2 (alphabet_size st)"
    "letter_max st3 = 2 ^ nat (ceil_log2 (alphabet_size st)) - 1"
    "word_bits st3 = word_length st * ceil_log2 (alphabet_size st)"
    "levels st3 = levels st" "levels st \<le> 1 \<Longrightarrow> level_bits st3 = level_bits st"
    unfolding st3_def Let_def using st2 by (simp_all del: sum_list.Cons)
  show "word_length (snd (fit binning cpu st X y)) = word_length st"
    "alphabet_size (snd (fit binning cpu st X y)) = alphabet_size st"
    "letter_bits (snd (fit binning cpu st X y)) = ceil_log2 (alphabet_size st)"
    "letter_max (snd (fit binning cpu st X y)) = 2 ^ nat (ceil_log2 (alphabet_size st)) - 1"
    "word_bits (snd (fit binning cpu st X y)) = word_length st * ceil_log2 (alphabet_size st)"
    "levels (snd (fit binning cpu st X y)) = levels st"
    "levels st \<le> 1 \<Longrightarrow> level_bits (snd (fit binning cpu st X y)) = level_bits st"
    unfolding res st4_def using st3 by simp_all
qed

lemma fit_validate_passes:
  assumes "2 \<le> alphabet_size st" "1 \<le> word_length st" "n_jobs st \<noteq> OtherJobs"
    "binning_method st \<in> binning_methods"
    "binning_method st = ''information-gain'' \<or> binning_method st = ''information-gain-mae''
       \<longrightarrow> has_y"
    "\<not> priv_typed_dict st"
  shows "fst (fit_validate cpu st has_y) = None"
  using assms fit_validate_fails_iff[of cpu st has_y]
  by (cases "fst (fit_validate cpu st has_y)") auto

text \<open>
  C2 (amended). With \<^verbatim>\<open>word_length = 40\<close> and \<^verbatim>\<open>alphabet_size = 256\<close> and an otherwise
  valid configuration, \<^verbatim>\<open>_fit\<close> raises \<^verbatim>\<open>ValueError\<close> exactly when the typed dictionary
  is in use. Without it (the default) the checks pass; when \<^verbatim>\<open>_fit\<close> then returns,
  \<^verbatim>\<open>letter_bits = 8\<close> and \<^verbatim>\<open>word_bits = 320\<close>, every window is encoded by
  \<^verbatim>\<open>_create_word_large\<close> as an unbounded integer, and (without pyramid levels)
  \<^verbatim>\<open>word_list\<close> decodes that integer to the 40 letters \<^verbatim>\<open>_create_word_full\<close> assigns,
  for every coefficient row whose letters all find a bin.
\<close>

theorem large_word_boundary:
  assumes "word_length st = 40" "alphabet_size st = 256"
    and "n_jobs st \<noteq> OtherJobs" "binning_method st \<in> binning_methods"
    and "binning_method st = ''information-gain'' \<or> binning_method st = ''information-gain-mae''
           \<longrightarrow> y \<noteq> None"
  shows "(priv_typed_dict st \<longrightarrow> fst (fit binning cpu st X y) = Some ValueError)
       \<and> (\<not> priv_typed_dict st \<longrightarrow>
            fst (fit_validate cpu st (y \<noteq> None)) = None
          \<and> (fst (fit binning cpu st X y) = None \<longrightarrow>
               letter_bits (snd (fit binning cpu st X y)) = 8
             \<and> word_bits (snd (fit binning cpu st X y)) = 320
             \<and> (levels st \<le> 1 \<and> level_bits st = 0
                 \<and> classifiable dft 40 256 (breakpoints (snd (fit binning cpu st X y))) \<longrightarrow>
                   window_word (snd (fit binning cpu st X y)) dft
                     = create_word_large (snd (fit binning cpu st X y)) dft
                 \<and> word_list (snd (fit binning cpu st X y))
                       (window_word (snd (fit binning cpu st X y)) dft)
                     = (None,
                        map int (create_word_full dft 40 256
                                   (breakpoints (snd (fit binning cpu st X y))) 8),
                        None))))"
proof (intro conjI impI)
  assume t: "priv_typed_dict st"
  have "fst (fit_validate cpu st (y \<noteq> None)) = Some ValueError"
    using assms t by (cases "n_jobs st") (auto simp: fit_validate_def check_n_jobs_def Let_def ceil_log2_256)
  then show "fst (fit binning cpu st X y) = Some ValueError"
    by (simp add: fit_stops_at_validation)
next
  assume "\<not> priv_typed_dict st"
  then show "fst (fit_validate cpu st (y \<noteq> None)) = None"
    using assms by (intro fit_validate_passes) simp_all
next
  assume ok: "fst (fit binning cpu st X y) = None"
  show "letter_bits (snd (fit binning cpu st X y)) = 8"
    using fit_success_fields(3)[OF ok] assms by (simp add: ceil_log2_256)
  show "word_bits (snd (fit binning cpu st X y)) = 320"
    using fit_success_fields(5)[OF ok] assms by (simp add: ceil_log2_256)
next
  let ?st = "snd (fit binning cpu st X y)"
  assume ok: "fst (fit binning cpu st X y) = None"
    and h: "levels st \<le> 1 \<and> level_bits st = 0 \<and> classifiable dft 40 256 (breakpoints ?st)"
  have f: "word_length ?st = 40" "alphabet_size ?st = 256" "letter_bits ?st = 8"
    "letter_max ?st = 255" "word_bits ?st = 320" "levels ?st \<le> 1" "level_bits ?st = 0"
    using fit_success_fields[OF ok] assms h by (simp_all add: ceil_log2_256)
  show w: "window_word ?st dft = create_word_large ?st dft"
    by (simp add: window_word_def f)
  have "word_list ?st (create_word_large ?st dft)
          = (None, map int (create_word_full dft (word_length ?st) (alphabet_size ?st)
                              (breakpoints ?st) (letter_bits ?st)), None)"
    using h by (intro word_list_decodes) (simp_all add: f)
  then show "word_list ?st (window_word ?st dft)
          = (None, map int (create_word_full dft 40 256 (breakpoints ?st) 8), None)"
    by (simp add: w f)
qed

lemma large_fields:
  "n_jobs (constructed large_args) = IntJobs 1"
  "alphabet_size (constructed large_args) = 256"
  "word_length (constructed large_args) = 40"
  "binning_method (constructed large_args) = ''equi-depth''"
  "\<not> priv_typed_dict (constructed large_args)"
  "\<not> bigrams (constructed large_args)" "\<not> skip_grams (constructed large_args)"
  "levels (constructed large_args) = 1" "level_bits (constructed large_args) = 0"
  by (simp_all add: constructed_def init_def large_args_def default_args_def Let_def)

lemma large_validates: "fst (fit_validate 1 (constructed large_args) False) = None"
  by (intro fit_validate_passes) (simp_all add: large_fields binning_methods_def)

lemma large_fit:
  "fst (fit large_binning 1 (constructed large_args) [[replicate 64 0]] None) = None"
  "breakpoints (snd (fit large_binning 1 (constructed large_args) [[replicate 64 0]] None))
     = replicate 40 (replicate 255 0 @ [float_max])"
  using large_validates
  by (auto simp: fit_def squeeze1_def large_binning_def large_fields Let_def
      split: prod.splits option.splits)

text \<open>
  C2 as stated is false: in the default configuration (no typed dictionary) a fit with
  40 letters over 256 symbols raises nothing, although \<^verbatim>\<open>word_bits = 320\<close>.
\<close>

theorem default_fit_accepts_320_bits:
  "fst (fit large_binning 1 (constructed large_args) [[replicate 64 0]] None) = None
   \<and> \<not> typed_dict (constructed large_args)
   \<and> word_bits (snd (fit large_binning 1 (constructed large_args) [[replicate 64 0]] None)) = 320"
  using fit_success_fields(5)[OF large_fit(1)]
  by (simp add: large_fit large_fields ceil_log2_256)
     (simp add: constructed_def init_def large_args_def default_args_def Let_def)

lemma classifiable_zero:
  "classifiable (replicate 40 0) 40 256 (replicate 40 (replicate 255 0 @ [float_max]))"
  by (simp add: classifiable_def find_bin_def upt_conv_Cons[of 0 256] nth_append)

text \<open>The amended C2 at the default configuration and a row of zeros.\<close>

theorem large_word_boundary_witness:
  "\<not> priv_typed_dict (constructed large_args)
   \<and> fst (fit large_binning 1 (constructed large_args) [[replicate 64 0]] None) = None
   \<and> word_bits (snd (fit large_binning 1 (constructed large_args) [[replicate 64 0]] None)) = 320
   \<and> word_list (snd (fit large_binning 1 (constructed large_args) [[replicate 64 0]] None))
        (window_word (snd (fit large_binning 1 (constructed large_args) [[replicate 64 0]] None))
           (replicate 40 0))
      = (None,
         map int (create_word_full (replicate 40 0) 40 256
                    (replicate 40 (replicate 255 0 @ [float_max])) 8),
         None)"
  using large_word_boundary[of "constructed large_args" None large_binning 1
          "[[replicate 64 0]]" "replicate 40 0"]
    classifiable_zero
  by (auto simp: large_fields large_fit binning_methods_def)

lemma unary_fields:
  "n_jobs (constructed unary_args) = IntJobs 1"
  "alphabet_size (constructed unary_args) = 1"
  "breakpoints (constructed unary_args) = []"
  by (simp_all add: constructed_def init_def unary_args_def default_args_def Let_def)

lemma unary_fails: "fst (fit_validate 1 (constructed unary_args) False) = Some ValueError"
  by (simp add: fit_validate_def check_n_jobs_def unary_fields Let_def)

text \<open>The amended C4 at a transformer whose alphabet has one symbol.\<close>

theorem fit_configuration_errors_witness:
  "alphabet_size (constructed unary_args) < 2
   \<and> fit no_binning 1 (constructed unary_args) [] None
       = fit_validate 1 (constructed unary_args) False
   \<and> fst (fit no_binning 1 (constructed unary_args) [] None) = Some ValueError
   \<and> breakpoints (snd (fit no_binning 1 (constructed unary_args) [] None)) = []"
  using fit_configuration_errors[of 1 "constructed unary_args" None no_binning "[]"] unary_fails
  by (auto simp: unary_fields)

lemma narrow_word:
  "create_word [2, 1 / 2] 2 3 [[0, 1, float_max], [0, 1, float_max]] (ceil_log2 3) = 9"
  by (simp add: create_word_def find_bin_def float_max_def upt_conv_Cons ceil_log2_3)

text \<open>
  C3 (the code at the failing input). The claim: \<^verbatim>\<open>_get_chars\<close> gives back the bins
  that \<^verbatim>\<open>_create_word\<close> packed. The code: with \<^verbatim>\<open>alphabet_size = 3\<close> the encoder
  packs letters of \<^verbatim>\<open>ceil(log2(3)) = 2\<close> bits while \<^verbatim>\<open>_get_chars\<close> reads letters of
  \<^verbatim>\<open>int(log2(3)) = 1\<close> bit: the coefficients \<open>2\<close> and \<open>1/2\<close> fall into the bins
  \<open>2\<close> and \<open>1\<close>, the word is \<open>9\<close>, and it is decoded as \<open>[0, 1]\<close>.
\<close>

theorem get_chars_narrow_letters:
  "create_word_full [2, 1 / 2] 2 3 [[0, 1, float_max], [0, 1, float_max]] (ceil_log2 3) = [2, 1]
   \<and> create_word [2, 1 / 2] 2 3 [[0, 1, float_max], [0, 1, float_max]] (ceil_log2 3) = 9
   \<and> get_chars (create_word [2, 1 / 2] 2 3 [[0, 1, float_max], [0, 1, float_max]] (ceil_log2 3))
        2 3 = [0, 1]"
proof -
  have "get_chars 9 2 3 = [0, 1]"
    by (simp add: get_chars_def int_log2_3 numeral_2_eq_2)
  moreover have "create_word_full [2, 1 / 2] 2 3 [[0, 1, float_max], [0, 1, float_max]]
                   (ceil_log2 3) = [2, 1]"
    by (simp add: create_word_full_def find_bin_def float_max_def upt_conv_Cons)
  ultimately show ?thesis by (simp add: narrow_word)
qed

subsection \<open>Shortening: prerequisite and clamp\<close>

lemma quadrant_error: "quadrant st start level wi = Inl e \<Longrightarrow> e = ZeroDivisionError"
  by (simp add: quadrant_def Let_def split: if_splits)

lemma level_key_error: "level_key st w start level wi = Inl e \<Longrightarrow> e = ZeroDivisionError"
  by (auto simp: level_key_def split: sum.splits dest: quadrant_error)

lemma add_levels_error:
  "add_levels st w wi lvls start bag = Inl e \<Longrightarrow> e = ZeroDivisionError"
  by (induction lvls arbitrary: start bag) (auto split: sum.splits dest: level_key_error)

lemma count_word_error: "count_word st window w s = Inl e \<Longrightarrow> e = ZeroDivisionError"
  by (auto simp: count_word_def add_to_pyramid_def split: sum.splits if_splits prod.splits
      dest: add_levels_error)

lemma ngram_step_error: "ngram_step st np64 f ws window offset w bag = Inl e \<Longrightarrow> e = IndexError"
  by (simp add: ngram_step_def split: if_splits)

lemma ngrams_error: "ngrams st np64 f ws window w bag = Inl e \<Longrightarrow> e = IndexError"
  by (auto simp: ngrams_def split: sum.splits if_splits dest: ngram_step_error)

lemma shorten_window_error: "shorten_window st l ws window s = Inl e \<Longrightarrow> e \<noteq> ValueError"
  by (auto simp: shorten_window_def Let_def split: sum.splits
      dest: count_word_error ngrams_error)

lemma run_windows_error:
  "(\<And>w s e. step w s = Inl e \<Longrightarrow> e \<noteq> ValueError) \<Longrightarrow>
     run_windows step wl s = Inl e \<Longrightarrow> e \<noteq> ValueError"
  by (induction wl arbitrary: s) (auto split: sum.splits)

lemma shorten_case_error: "shorten_case st l ws = Inl e \<Longrightarrow> e \<noteq> ValueError"
  unfolding shorten_case_def
  using run_windows_error[of "shorten_window st l ws", OF shorten_window_error]
  by (auto split: sum.splits)

lemma map_cases_error:
  "(\<And>x e. f x = Inl e \<Longrightarrow> e \<noteq> ValueError) \<Longrightarrow> map_cases f xs = Inl e \<Longrightarrow> e \<noteq> ValueError"
  by (induction xs arbitrary: e) (auto split: sum.splits)

lemma int_div_pos: "0 < y \<Longrightarrow> y \<le> x \<Longrightarrow> int_div x y \<noteq> 0"
proof -
  assume a: "0 < y" "y \<le> x"
  then have "0 < x div y" by (simp add: pos_imp_zdiv_pos_iff)
  then show ?thesis using a by (simp add: int_div_def)
qed

lemma quadrant_ok:
  "2 ^ level \<le> n_timepoints st \<Longrightarrow> \<exists>q. quadrant st start level wi = Inr q"
  using int_div_pos[of "2 ^ level" "n_timepoints st"] by (simp add: quadrant_def Let_def)

lemma level_key_ok:
  "2 ^ level \<le> n_timepoints st \<Longrightarrow> \<exists>k. level_key st w start level wi = Inr k"
  using quadrant_ok[of level st start wi] by (auto simp: level_key_def)

lemma add_levels_ok:
  "\<forall>i\<in>set lvls. 2 ^ i \<le> n_timepoints st \<Longrightarrow> \<exists>b. add_levels st w wi lvls start bag = Inr b"
proof (induction lvls arbitrary: start bag)
  case Nil
  show ?case by simp
next
  case (Cons i lvls)
  then obtain k where "level_key st w start i wi = Inr k"
    using level_key_ok[of i st w start wi] by auto
  then show ?case using Cons by simp
qed

lemma levels_in_range:
  assumes "2 ^ (nat (levels st) - 1) \<le> n_timepoints st"
  shows "\<forall>i\<in>set [0..<nat (levels st)]. 2 ^ i \<le> n_timepoints st"
proof
  fix i assume "i \<in> set [0..<nat (levels st)]"
  then have "i \<le> nat (levels st) - 1" by auto
  then have "(2::int) ^ i \<le> 2 ^ (nat (levels st) - 1)" by (intro power_increasing) simp_all
  then show "2 ^ i \<le> n_timepoints st" using assms by linarith
qed

lemma count_word_ok:
  assumes "levels st \<le> 1 \<or> 2 ^ (nat (levels st) - 1) \<le> n_timepoints st"
  shows "\<exists>s'. count_word st window w s = Inr s'"
proof (cases "levels st > 1")
  case False
  then show ?thesis by (simp add: count_word_def split: prod.splits)
next
  case True
  then have "\<forall>i\<in>set [0..<nat (levels st)]. 2 ^ i \<le> n_timepoints st"
    using assms levels_in_range by simp
  then obtain b where
    "add_levels st w (int window - int (repeat_words s div 2)) [0..<nat (levels st)] 0 (the_bag s)
       = Inr b"
    using add_levels_ok by blast
  then show ?thesis using True by (simp add: count_word_def add_to_pyramid_def)
qed

lemma ngram_step_ok:
  "0 \<le> offset \<Longrightarrow> window < length ws \<Longrightarrow>
     \<exists>b. ngram_step st np64 f ws window offset w bag = Inr b"
  by (auto simp: ngram_step_def)

lemma ngrams_ok:
  assumes "bigrams st \<or> skip_grams st \<longrightarrow> 0 \<le> window_size st" "window < length ws"
  shows "\<exists>b. ngrams st np64 f ws window w bag = Inr b"
proof -
  obtain b1 where b1: "(if bigrams st then ngram_step st np64 f ws window (window_size st) w bag
            else Inr bag) = Inr b1"
  proof (cases "bigrams st")
    case True
    then have "0 \<le> window_size st" using assms by simp
    then show ?thesis
      using True assms(2) ngram_step_ok[of "window_size st" window ws st np64 f w bag] that
      by auto
  next
    case False
    then show ?thesis using that by simp
  qed
  show ?thesis
  proof (cases "skip_grams st")
    case False
    then show ?thesis using b1 by (simp add: ngrams_def)
  next
    case True
    then have ws: "0 \<le> window_size st" using assms by simp
    obtain b2 where b2: "ngram_step st np64 f ws window (2 * window_size st) w b1 = Inr b2"
      using ngram_step_ok[of "2 * window_size st" window ws st np64 f w b1] ws assms(2) by auto
    obtain b3 where "ngram_step st np64 f ws window (3 * window_size st) w b2 = Inr b3"
      using ngram_step_ok[of "3 * window_size st" window ws st np64 f w b2] ws assms(2) by auto
    then show ?thesis using True b1 b2 by (simp add: ngrams_def)
  qed
qed

lemma shorten_window_ok:
  assumes "levels st \<le> 1 \<or> 2 ^ (nat (levels st) - 1) \<le> n_timepoints st"
    "bigrams st \<or> skip_grams st \<longrightarrow> 0 \<le> window_size st" "window < length ws"
  shows "\<exists>s'. shorten_window st l ws window s = Inr s'"
proof -
  obtain s2 where s2: "count_word st window (shorten_words st (ws ! window) l) s = Inr s2"
    using count_word_ok[OF assms(1)] by blast
  obtain b where "ngrams st False (\<lambda>w. shorten_words st w l) ws window
                    (shorten_words st (ws ! window) l) (the_bag s2) = Inr b"
    using ngrams_ok[OF assms(2,3)] by blast
  then show ?thesis using s2 by (simp add: shorten_window_def Let_def)
qed

lemma run_windows_ok:
  "(\<And>w s. w \<in> set wl \<Longrightarrow> \<exists>s'. step w s = Inr s') \<Longrightarrow> \<exists>s'. run_windows step wl s = Inr s'"
proof (induction wl arbitrary: s)
  case Nil
  show ?case by simp
next
  case (Cons w wl)
  then obtain s1 where "step w s = Inr s1" by (meson list.set_intros(1))
  then show ?case using Cons by simp
qed

lemma shorten_case_ok:
  assumes "levels st \<le> 1 \<or> 2 ^ (nat (levels st) - 1) \<le> n_timepoints st"
    "bigrams st \<or> skip_grams st \<longrightarrow> 0 \<le> window_size st"
  shows "\<exists>b. shorten_case st l ws = Inr b"
proof -
  have "\<exists>s'. run_windows (shorten_window st l ws) [0..<length ws]
          \<lparr>the_bag = Map.empty, last_word = - 1, repeat_words = 0, word_array = []\<rparr> = Inr s'"
    using shorten_window_ok[OF assms] by (intro run_windows_ok) simp
  then show ?thesis by (auto simp: shorten_case_def)
qed

lemma map_cases_ok: "(\<And>x. \<exists>y. f x = Inr y) \<Longrightarrow> \<exists>ys. map_cases f xs = Inr ys"
proof (induction xs)
  case Nil
  show ?case by simp
next
  case (Cons x xs)
  then obtain y ys where "f x = Inr y" "map_cases f xs = Inr ys" by metis
  then show ?case by simp
qed

text \<open>
  C7. \<^verbatim>\<open>_shorten_bags\<close> raises \<^verbatim>\<open>ValueError\<close> when \<^verbatim>\<open>save_words\<close> is off. With
  \<^verbatim>\<open>save_words\<close> on and a target length above \<^verbatim>\<open>word_length\<close>, the result is the
  result of shortening to \<^verbatim>\<open>word_length\<close> itself and is never that error; it is a
  list of bags whenever the accumulation has nothing to raise on (no level has more
  quadrants than time points, and the n-grams look backwards).
\<close>

theorem shorten_bags_prerequisite_and_clamp:
  "(\<not> save_words st \<longrightarrow> shorten_bags st word_len = Inl ValueError)
   \<and> (save_words st \<and> word_length st < word_len \<longrightarrow>
        shorten_bags st word_len = shorten_bags st (word_length st)
      \<and> shorten_bags st word_len \<noteq> Inl ValueError
      \<and> ((levels st \<le> 1 \<or> 2 ^ (nat (levels st) - 1) \<le> n_timepoints st)
          \<and> (bigrams st \<or> skip_grams st \<longrightarrow> 0 \<le> window_size st)
          \<longrightarrow> (\<exists>bags. shorten_bags st word_len = Inr bags)))"
proof (intro conjI impI)
  assume "\<not> save_words st"
  then show "shorten_bags st word_len = Inl ValueError" by (simp add: shorten_bags_def)
next
  assume a: "save_words st \<and> word_length st < word_len"
  then show "shorten_bags st word_len = shorten_bags st (word_length st)"
    by (simp add: shorten_bags_def)
  show "shorten_bags st word_len \<noteq> Inl ValueError"
    using a map_cases_error[of "shorten_case st (word_length st)" "words st" ValueError]
      shorten_case_error[of st "word_length st"]
    by (auto simp: shorten_bags_def)
next
  assume a: "save_words st \<and> word_length st < word_len"
    and c: "(levels st \<le> 1 \<or> 2 ^ (nat (levels st) - 1) \<le> n_timepoints st)
          \<and> (bigrams st \<or> skip_grams st \<longrightarrow> 0 \<le> window_size st)"
  have "\<exists>ys. map_cases (shorten_case st (word_length st)) (words st) = Inr ys"
    using c shorten_case_ok[of st] by (intro map_cases_ok) blast
  then show "\<exists>bags. shorten_bags st word_len = Inr bags"
    using a by (simp add: shorten_bags_def)
qed

lemma saving_fields:
  "save_words saving_sfa" "word_length saving_sfa = 8" "letter_bits saving_sfa = 2"
  "word_bits saving_sfa = 16" "levels saving_sfa = 1" "\<not> bigrams saving_sfa"
  "\<not> skip_grams saving_sfa" "\<not> remove_repeat_words saving_sfa"
  "\<not> priv_typed_dict saving_sfa" "words saving_sfa = [[5, 5]]"
  by (simp_all add: saving_sfa_def saving_args_def constructed_def init_def default_args_def
      fit_validate_def check_n_jobs_def binning_methods_def Let_def ceil_log2_eq[of 1 4, simplified])

lemma default_not_saving: "\<not> save_words (constructed default_args)"
  by (simp add: constructed_def init_def default_args_def Let_def)

lemma saving_shorten: "shorten_bags saving_sfa 8 = Inr [[IntKey 5 \<mapsto> 2]]"
  by (simp add: shorten_bags_def shorten_case_def shorten_window_def shorten_words_def
      shorten_word_def count_word_def add_to_bag_def bag_add_def bag_get_def ngrams_def
      saving_fields Let_def upt_conv_Cons numeral_2_eq_2)

text \<open>C7 at a transformer that saves no words and at one that holds two saved words.\<close>

theorem shorten_bags_prerequisite_and_clamp_witness:
  "\<not> save_words (constructed default_args)
   \<and> shorten_bags (constructed default_args) 4 = Inl ValueError
   \<and> save_words saving_sfa \<and> word_length saving_sfa < 9
   \<and> shorten_bags saving_sfa 9 = shorten_bags saving_sfa 8
   \<and> shorten_bags saving_sfa 9 = Inr [[IntKey 5 \<mapsto> 2]]"
  using shorten_bags_prerequisite_and_clamp[of "constructed default_args" 4]
    shorten_bags_prerequisite_and_clamp[of saving_sfa 9]
    default_not_saving saving_shorten
  by (auto simp: saving_fields)

subsection \<open>The floor of the standard deviation\<close>

text \<open>
  C6 (the code at the failing input). The claim: a window whose standard deviation is
  below \<open>1e-8\<close> is normalised with the floor 1, in the direct transform as in the
  incremental one. The code: the window \<open>[0, 2e-9]\<close> has the standard deviation
  \<open>1e-9\<close>; \<^verbatim>\<open>_calc_incremental_mean_std\<close> floors it to 1, but
  \<^verbatim>\<open>_discrete_fourier_transform\<close> tests \<^verbatim>\<open>std == 0\<close> only and divides by \<open>1e-9\<close>:
  the first coefficient is \<open>2\<close>, where the floor would give \<open>2e-9\<close>.
\<close>

theorem direct_dft_divides_by_tiny_std:
  "np_std [0, 2 / 10 ^ 9] = 1 / 10 ^ 9
   \<and> 0 < np_std [0, 2 / 10 ^ 9] \<and> np_std [0, 2 / 10 ^ 9] < 1 / 10 ^ 8
   \<and> discrete_fourier_transform [0, 2 / 10 ^ 9] 2 False 1 True True True = Inr [2, 0]
   \<and> std_floor (np_std [0, 2 / 10 ^ 9]) = 1
   \<and> calc_incremental_mean_std [0, 2 / 10 ^ 9] 1 2 = Inr [1]"
proof -
  define xs :: "real list" where "xs = [0, 2 / 10 ^ 9]"
  define t :: real where "t = 1 / 10 ^ 9"
  have t: "0 < t" "t < 1 / 10 ^ 8" "t \<noteq> 0" by (simp_all add: t_def)
  have xs: "xs = [0, 2 * t]" by (simp add: xs_def t_def)
  have "np_std xs = sqrt (t\<^sup>2)"
    unfolding np_std_def np_mean_def xs by (simp add: power2_eq_square)
  then have std: "np_std xs = t" using t by simp
  have r: "dft_real xs 0 = 2 * t"
    by (simp add: dft_real_def xs upt_conv_Cons)
  have i: "dft_imag xs 0 = 0"
    by (simp add: dft_imag_def xs upt_conv_Cons)
  have d: "discrete_fourier_transform xs 2 False 1 True True True = Inr [2, 0]"
    using t by (simp add: discrete_fourier_transform_def Let_def r i std negate_odd_def
        upt_conv_Cons)
  have "sqrt (2 * t * (2 * t) * (1 / 2) - 2 * t * (1 / 2) * (2 * t * (1 / 2))) = sqrt (t\<^sup>2)"
    by (simp add: power2_eq_square)
  then have b: "sqrt (2 * t * (2 * t) * (1 / 2) - 2 * t * (1 / 2) * (2 * t * (1 / 2))) = t"
    using t by simp
  have "calc_incremental_mean_std xs 1 2 = Inr [std_floor t]"
    unfolding calc_incremental_mean_std_def Let_def slice0_def xs
    using b by simp
  then have c: "calc_incremental_mean_std xs 1 2 = Inr [1]"
    using t by (simp add: std_floor_def)
  have "np_std xs = t \<and> 0 < np_std xs \<and> np_std xs < 1 / 10 ^ 8
     \<and> discrete_fourier_transform xs 2 False 1 True True True = Inr [2, 0]
     \<and> std_floor (np_std xs) = 1
     \<and> calc_incremental_mean_std xs 1 2 = Inr [1]"
    using d c t by (simp add: std std_floor_def)
  then show ?thesis unfolding xs_def t_def .
qed

subsection \<open>The number of windows\<close>

lemma item_ok: "0 \<le> i \<Longrightarrow> i < int (length xs) \<Longrightarrow> item xs i = Inr (xs ! nat i)"
  by (simp add: item_def Let_def)

lemma incremental_stds_ok:
  "\<forall>w\<in>set wl. 1 \<le> w \<and> int w + ws - 1 < int (length series) \<Longrightarrow> 1 \<le> ws \<Longrightarrow>
     \<exists>stds. incremental_stds series ws r wl s q = Inr stds \<and> length stds = length wl"
proof (induction wl arbitrary: s q)
  case Nil
  show ?case by simp
next
  case (Cons w wl)
  have a: "item series (int w + ws - 1) = Inr (series ! nat (int w + ws - 1))"
    using Cons.prems by (intro item_ok) auto
  have b: "item series (int w - 1) = Inr (series ! nat (int w - 1))"
    using Cons.prems by (intro item_ok) auto
  let ?x = "series ! nat (int w + ws - 1)" and ?y = "series ! nat (int w - 1)"
  obtain stds where "incremental_stds series ws r wl (s + (?x - ?y)) (q + (?x * ?x - ?y * ?y))
      = Inr stds" "length stds = length wl"
    using Cons.IH[of "s + (?x - ?y)" "q + (?x * ?x - ?y * ?y)"] Cons.prems by auto
  then show ?case by (simp add: a b Let_def)
qed

lemma calc_incremental_mean_std_ok:
  assumes "1 \<le> ws" "e = nat (max 1 (int (length series) - ws + 1))"
  shows "\<exists>stds. calc_incremental_mean_std series e ws = Inr stds \<and> length stds = e"
proof -
  have e: "1 \<le> e" using assms by simp
  have "\<forall>w\<in>set [1..<e]. 1 \<le> w \<and> int w + ws - 1 < int (length series)"
    using assms by auto
  then obtain stds where "incremental_stds series ws (1 / real_of_int ws) [1..<e]
       (sum_list (slice0 series ws)) (sum_list (map (\<lambda>x. x * x) (slice0 series ws))) = Inr stds"
     "length stds = length [1..<e]"
    using incremental_stds_ok[OF _ assms(1)] by blast
  then show ?thesis using assms(1) e by (simp add: calc_incremental_mean_std_def Let_def)
qed

lemma get_phis_ok: "ws \<noteq> 0 \<Longrightarrow> 0 \<le> len \<Longrightarrow> \<exists>phis. get_phis ws len = Inr phis"
  by (simp add: get_phis_def)

lemma length_concat_pairs: "length (concat (map (\<lambda>i. [f i, g i]) xs)) = 2 * length xs"
  by (induction xs) simp_all

lemma dft_seed_ok:
  assumes "0 \<le> dl" "even dl"
  shows "\<exists>d. discrete_fourier_transform series dl nrm c lb False False = Inr d
           \<and> length d = nat (dl + (if nrm then 2 else 0))"
proof -
  let ?ol = "(if nrm then 2 else 0) + dl"
  have ev: "even ?ol" using assms by simp
  have nn: "0 \<le> ?ol" using assms by simp
  have "2 * nat (?ol div 2) = nat ?ol" using ev nn by (auto elim!: evenE)
  then show ?thesis using nn
    by (simp add: discrete_fourier_transform_def Let_def length_concat_pairs add.commute)
qed

lemma length_interleave: "length (interleave xs ys) = length xs + length ys"
  by (induction xs ys rule: interleave.induct) simp_all

lemma fft_seed_ok:
  assumes "\<not> priv_use_fallback_dft st" "1 \<le> window_size st" "series \<noteq> []" "0 \<le> len" "even len"
    "len div 2 \<le> min (window_size st) (int (length series)) div 2 + 1"
  shows "\<exists>d. mft_seed st series len = Inr d \<and> length d = nat len"
proof -
  let ?w = "slice0 series (window_size st)"
  have w: "?w = take (nat (window_size st)) series" using assms(2) by (simp add: slice0_def)
  then have ne: "?w \<noteq> []" using assms(2,3) by (cases series) (auto simp: take_Cons')
  have lw: "int (length ?w) = min (window_size st) (int (length series))"
    using w assms(2) by simp
  define X where "X = map (\<lambda>k. (dft_real ?w k, dft_imag ?w k)) [0..<length ?w div 2 + 1]"
  have r: "rfft ?w = Inr X" using ne by (simp add: rfft_def X_def)
  have "int (length X) = min (window_size st) (int (length series)) div 2 + 1"
    unfolding X_def using lw by (simp add: zdiv_int)
  then have "nat (len div 2) \<le> length X" using assms(6) by linarith
  then have lt: "length (take (nat (len div 2)) X) = nat (len div 2)" by simp
  have half: "(nat len + 1) div 2 = nat (len div 2)" "nat len div 2 = nat (len div 2)"
    using assms(4,5) by (auto elim!: evenE)
  have tw: "nat (len div 2) + nat (len div 2) = nat len"
    using assms(4,5) by (auto elim!: evenE)
  show ?thesis
    using assms(1,4) r lt half tw
    by (simp add: mft_seed_def assign_slice_def length_interleave)
qed

lemma length_rotate_pairs: "length (rotate_pairs d p x) = length d"
  by (induction d p x rule: rotate_pairs.induct) simp_all

lemma iterate_mft_ok:
  "\<forall>i\<in>set il. 1 \<le> i \<and> int i + ws - 1 < int (length series) \<and> i < length stds \<Longrightarrow> 1 \<le> ws \<Longrightarrow>
     \<exists>rows. iterate_mft series d phis ws stds c il = Inr rows \<and> length rows = length il
        \<and> (\<forall>row\<in>set rows. length row = length d)"
proof (induction il arbitrary: d)
  case Nil
  show ?case by simp
next
  case (Cons i il)
  have a: "item series (int i + ws - 1) = Inr (series ! nat (int i + ws - 1))"
    using Cons.prems by (intro item_ok) auto
  have b: "item series (int i - 1) = Inr (series ! nat (int i - 1))"
    using Cons.prems by (intro item_ok) auto
  have s: "item stds (int i) = Inr (stds ! i)"
    using Cons.prems item_ok[of "int i" stds] by simp
  let ?d = "rotate_pairs d phis (series ! nat (int i + ws - 1) - series ! nat (int i - 1))"
  obtain rows where "iterate_mft series ?d phis ws stds c il = Inr rows"
    "length rows = length il" "\<forall>row\<in>set rows. length row = length ?d"
    using Cons.IH[of ?d] Cons.prems by auto
  then show ?case by (simp add: a b s Let_def length_rotate_pairs)
qed

lemma length_negate_odd: "length (negate_odd xs) = length xs"
  by (simp add: negate_odd_def)

lemma mft_output_ok:
  assumes "\<forall>row\<in>set T. length row = nat len" "len = dft_length st + off"
    "off = (if norm_opt st then 2 else 0)"
    "anova st \<longrightarrow> (\<forall>j\<in>set (support st). int j < dft_length st)" "0 \<le> dft_length st"
  shows "\<exists>R. mft_output st T = Inr R \<and> length R = length T"
proof -
  define flipped where "flipped = (if lower_bounding st then map negate_odd T else T)"
  have f: "\<forall>row\<in>set flipped. length row = nat len" "length flipped = length T"
    using assms(1) by (auto simp: flipped_def length_negate_odd)
  define cut where "cut = map (drop (if norm_opt st then 2 else 0)) flipped"
  have c: "length cut = length T" using f by (simp add: cut_def)
  have "\<forall>row\<in>set cut. length row = nat (dft_length st)"
    using f(1) assms(2,3,5) by (auto simp: cut_def)
  then have rc: "anova st \<longrightarrow> (\<forall>row\<in>set cut. \<forall>j\<in>set (support st). j < length row)"
    using assms(4,5) by fastforce
  have "mft_output st T =
     (if anova st
      then (if \<forall>row \<in> set cut. \<forall>j \<in> set (support st). j < length row
            then Inr (map (\<lambda>row. map (\<lambda>j. row ! j) (support st)) cut)
            else Inl IndexError)
      else Inr cut)"
    unfolding mft_output_def Let_def cut_def flipped_def ..
  then show ?thesis using rc c by (cases "anova st") simp_all
qed

text \<open>
  Where the seeding of the first window succeeds, \<^verbatim>\<open>_mft\<close> returns exactly
  \<^verbatim>\<open>max(1, n - window_size + 1)\<close> rows for a series of length \<open>n\<close>: with a window
  size of at least 1 (and the even, nonnegative \<^verbatim>\<open>dft_length\<close> of the constructor)
  this is so whenever the first window is seeded by the direct transform, or by
  \<^verbatim>\<open>np.fft.rfft\<close> on a window that yields the \<^verbatim>\<open>length / 2\<close> coefficients the seed
  reads.
\<close>

lemma mft_row_count:
  assumes "1 \<le> window_size st" "0 \<le> dft_length st" "even (dft_length st)"
    and "anova st \<longrightarrow> (\<forall>j\<in>set (support st). int j < dft_length st)"
    and "priv_use_fallback_dft st
         \<or> (series \<noteq> []
            \<and> (dft_length st + (if norm_opt st then 2 else 0)) div 2
                \<le> min (window_size st) (int (length series)) div 2 + 1)"
  shows "\<exists>rows. mft st series = Inr rows
           \<and> int (length rows) = max 1 (int (length series) - window_size st + 1)"
proof -
  define off :: int where "off = (if norm_opt st then 2 else 0)"
  define len where "len = dft_length st + off + dft_length st mod 2"
  define e where "e = nat (max 1 (int (length series) - window_size st + 1))"
  have len: "len = dft_length st + off" "0 \<le> len" "even len"
    using assms(2,3) by (auto simp: len_def off_def)
  obtain phis where phis: "get_phis (window_size st) len = Inr phis"
    using get_phis_ok[of "window_size st" len] assms(1) len by auto
  obtain stds where stds: "calc_incremental_mean_std series e (window_size st) = Inr stds"
    "length stds = e"
    using calc_incremental_mean_std_ok[OF assms(1) e_def] by blast
  have "\<exists>d. mft_seed st series len = Inr d \<and> length d = nat len"
  proof (cases "priv_use_fallback_dft st")
    case True
    then show ?thesis
      using dft_seed_ok[OF assms(2,3), of "slice0 series (window_size st)" "norm_opt st"]
      by (simp add: mft_seed_def len off_def)
  next
    case False
    then show ?thesis
      using assms(1,5) len by (intro fft_seed_ok) (simp_all add: off_def)
  qed
  then obtain d where d: "mft_seed st series len = Inr d" "length d = nat len" by blast
  have "\<forall>i\<in>set [1..<e]. 1 \<le> i \<and> int i + window_size st - 1 < int (length series)
          \<and> i < length stds"
    using stds(2) by (auto simp: e_def)
  then obtain rows where rows:
    "iterate_mft series d phis (window_size st) stds (inverse_sqrt_win_size st) [1..<e] = Inr rows"
    "length rows = length [1..<e]" "\<forall>row\<in>set rows. length row = length d"
    using iterate_mft_ok[OF _ assms(1)] by blast
  let ?T = "map (\<lambda>x. x * inverse_sqrt_win_size st / hd stds) d # rows"
  have lT: "length ?T = e" using rows(2) by (simp add: e_def)
  have rT: "\<forall>row\<in>set ?T. length row = nat len" using rows(3) d(2) by simp
  have m: "mft st series = mft_output st ?T"
    unfolding mft_def Let_def
    using phis stds(1) d rows(1)
    by (simp add: len_def[symmetric] off_def[symmetric] e_def[symmetric] del: upt_Suc)
  have e: "int e = max 1 (int (length series) - window_size st + 1)" by (simp add: e_def)
  obtain R where "mft_output st ?T = Inr R" "length R = length ?T"
    using mft_output_ok[OF rT len(1) _ assms(4) assms(2)] by (auto simp: off_def)
  then show ?thesis using m lT e by simp
qed

lemma default_fields:
  "window_size (constructed default_args) = 12" "dft_length (constructed default_args) = 8"
  "\<not> norm_opt (constructed default_args)" "\<not> priv_use_fallback_dft (constructed default_args)"
  "\<not> anova (constructed default_args)"
  by (simp_all add: constructed_def init_def default_args_def Let_def)

lemma fallback_fields:
  "window_size (constructed fallback_args) = 12" "dft_length (constructed fallback_args) = 8"
  "\<not> norm_opt (constructed fallback_args)" "priv_use_fallback_dft (constructed fallback_args)"
  "\<not> anova (constructed fallback_args)"
  by (simp_all add: constructed_def init_def fallback_args_def default_args_def Let_def)

lemma mft_direct_seed_one_row:
  "\<exists>row. mft (constructed fallback_args) [1, 2, 3, 4] = Inr [row]"
proof -
  obtain rows where r: "mft (constructed fallback_args) [1, 2, 3, 4] = Inr rows"
    "int (length rows) = max 1 (int (length [1, 2, 3, 4 :: real])
        - window_size (constructed fallback_args) + 1)"
    using mft_row_count[of "constructed fallback_args" "[1, 2, 3, 4]"]
    by (auto simp: fallback_fields)
  then have "length rows = 1" by (simp add: fallback_fields)
  then obtain row where "rows = [row]" by (cases rows) auto
  then show ?thesis using r(1) by simp
qed

text \<open>
  C10 (the code at the failing input). The claim promises \<^verbatim>\<open>max(1, n - w + 1)\<close> rows
  for every series, one row when the window is longer than the series, and \<^verbatim>\<open>_mft\<close>
  provides for that case with \<^verbatim>\<open>end = max(1, ...)\<close>. With the default arguments
  (window size 12, word length 8, the first window seeded by \<^verbatim>\<open>np.fft.rfft\<close>) a series
  of four points gives the transform three coefficients where the seed reads four,
  and the assignment raises \<^verbatim>\<open>ValueError\<close>: no row is produced. With the direct seed
  (\<^verbatim>\<open>use_fallback_dft\<close>) the same series gives the one row of the claim.
\<close>

theorem mft_short_series_raises:
  "\<not> priv_use_fallback_dft (constructed default_args)
   \<and> window_size (constructed default_args) = 12
   \<and> max 1 (int (length [1, 2, 3, 4 :: real]) - window_size (constructed default_args) + 1) = 1
   \<and> mft (constructed default_args) [1, 2, 3, 4] = Inl ValueError
   \<and> \<not> isl (mft (constructed fallback_args) [1, 2, 3, 4])
   \<and> length (projr (mft (constructed fallback_args) [1, 2, 3, 4])) = 1"
proof -
  have a: "mft (constructed default_args) [1, 2, 3, 4] = Inl ValueError"
    by (simp add: mft_def get_phis_def calc_incremental_mean_std_def mft_seed_def rfft_def
        assign_slice_def slice0_def Let_def default_fields)
  obtain row where "mft (constructed fallback_args) [1, 2, 3, 4] = Inr [row]"
    using mft_direct_seed_one_row by blast
  then show ?thesis using a by (simp add: default_fields)
qed

subsection \<open>Breakpoint rows\<close>






lemma row_shape_simp:
  assumes "Suc 0 \<le> a" "length vals = a - Suc 0"
  shows "(vals @ replicate (a - (a - Suc 0)) (0::real))[a - Suc 0 := float_max]
           = vals @ [float_max]"
proof -
  have "a - (a - Suc 0) = Suc 0" using assms(1) by simp
  then show ?thesis using assms(2) by (simp add: list_update_append)
qed













subsection \<open>The sentinel of the repeat tracker\<close>

lemma ceil_log2_65536: "ceil_log2 65536 = 16"
  using ceil_log2_eq[of 15 65536] by simp

lemma ramp_constructed:
  "word_length (constructed (ramp_args r)) = 4" "alphabet_size (constructed (ramp_args r)) = 65536"
  "window_size (constructed (ramp_args r)) = 6" "norm_opt (constructed (ramp_args r))"
  "dft_length (constructed (ramp_args r)) = 4" "priv_use_fallback_dft (constructed (ramp_args r))"
  "inverse_sqrt_win_size (constructed (ramp_args r)) = 1"
  "lower_bounding (constructed (ramp_args r))" "\<not> anova (constructed (ramp_args r))"
  "binning_method (constructed (ramp_args r)) = ''equi-depth''"
  "remove_repeat_words (constructed (ramp_args r)) = r"
  "levels (constructed (ramp_args r)) = 1" "\<not> bigrams (constructed (ramp_args r))"
  "\<not> skip_grams (constructed (ramp_args r))" "\<not> save_words (constructed (ramp_args r))"
  "\<not> priv_typed_dict (constructed (ramp_args r))" "n_jobs (constructed (ramp_args r)) = IntJobs 1"
  "support (constructed (ramp_args r)) = [0..<4]"
  by (simp_all add: constructed_def init_def ramp_args_def default_args_def Let_def)

lemma ramp_validate:
  "fit_validate 1 (constructed (ramp_args r)) False =
     (None, (constructed (ramp_args r))\<lparr>priv_n_jobs := 1, letter_bits := 16,
        letter_max := 65535, word_bits := 64, max_bits := 64\<rparr>)"
  by (simp add: fit_validate_def check_n_jobs_def ramp_constructed binning_methods_def Let_def
      ceil_log2_65536)

lemma dft_zero_window:
  "discrete_fourier_transform [0, 0, 0, 0, 0, 0] 4 True 1 True True True = Inr [0, 0, 0, 0]"
  by (simp add: discrete_fourier_transform_def dft_real_def dft_imag_def negate_odd_def np_std_def
      np_mean_def Let_def upt_conv_Cons)

lemma map_cases_cong_Inr: "\<forall>x\<in>set xs. f x = Inr (g x) \<Longrightarrow> map_cases f xs = Inr (map g xs)"
  by (induction xs) simp_all

lemma equi_depth_constant_row:
  assumes a: "2 \<le> alphabet_size st" and m: "binning_method st = ''equi-depth''"
    and t: "1 \<le> tot"
    and c: "\<forall>i<nat tot. real_of_int (py_round (dft ! i ! letter * 100)) / 100 = v"
  shows "mcb_row st dft tot letter = Inr (replicate (nat (alphabet_size st) - 1) v @ [float_max])"
proof -
  let ?a = "alphabet_size st"
  let ?q = "real_of_int tot / real_of_int ?a"
  have "map (\<lambda>i. real_of_int (py_round (dft ! i ! letter * 100)) / 100) [0..<nat tot]
          = map (\<lambda>i. v) [0..<nat tot]"
    by (rule map_cong) (simp_all add: c)
  then have col: "mcb_column dft tot letter = replicate (nat tot) v"
    by (simp add: mcb_column_def map_replicate_const sorted_sort_id)
  have ne: "replicate (nat tot) v \<noteq> []" using t by simp
  have idx: "replicate (nat tot) v ! nat \<lfloor>real (bp + 1) * ?q\<rfloor> = v"
    if "bp \<in> set [0..<nat ?a - 1]" for bp
  proof -
    have "real (bp + 1) < real_of_int ?a" using that a by auto
    then have "real (bp + 1) * real_of_int tot < real_of_int ?a * real_of_int tot"
      using t by (intro mult_strict_right_mono) simp_all
    then have "real (bp + 1) * ?q < real_of_int tot" using a by (simp add: field_simps)
    then have "\<lfloor>real (bp + 1) * ?q\<rfloor> < tot" by (simp add: floor_less_iff)
    then have "nat \<lfloor>real (bp + 1) * ?q\<rfloor> < nat tot" using t by linarith
    then show ?thesis by (rule nth_replicate)
  qed
  have "map (\<lambda>bp. replicate (nat tot) v ! nat \<lfloor>real (bp + 1) * ?q\<rfloor>) [0..<nat ?a - 1]
          = map (\<lambda>bp. v) [0..<nat ?a - 1]"
    by (rule map_cong) (simp_all only: idx)
  then have vals: "map (\<lambda>bp. replicate (nat tot) v ! nat \<lfloor>real (bp + 1) * ?q\<rfloor>)
          [0..<nat ?a - 1] = replicate (nat ?a - 1) v"
    by (simp add: map_replicate_const)
  have a1: "Suc 0 \<le> nat ?a" using a by simp
  have "mcb_row st dft tot letter =
      Inr ((map (\<lambda>bp. replicate (nat tot) v ! nat \<lfloor>real (bp + 1) * ?q\<rfloor>)
              [0..<nat ?a - 1] @ drop (nat ?a - 1) (replicate (nat ?a) 0))[nat ?a - 1 := float_max])"
    unfolding mcb_row_def Let_def col using m ne by simp
  also have "\<dots> = Inr (replicate (nat ?a - 1) v @ [float_max])"
    unfolding vals using row_shape_simp[OF a1, of "replicate (nat ?a - 1) v"] by simp
  finally show ?thesis .
qed

lemma ramp_mcb:
  assumes "alphabet_size st = 65536" "word_length st = 4" "binning_method st = ''equi-depth''"
    "window_size st = 6" "n_cases st = 1"
    "\<lceil>real_of_int (n_timepoints st) / 6\<rceil> = int (length dft)" "dft \<noteq> []"
    "\<forall>row\<in>set dft. row = [0, 0, 0, 0]"
  shows "mcb st dft = Inr (replicate 4 (replicate 65535 0 @ [float_max]))"
proof -
  let ?tot = "int (length dft)"
  have t: "1 \<le> ?tot" using assms(7) by (cases dft) simp_all
  have r: "mcb_row st dft ?tot letter = Inr (replicate 65535 0 @ [float_max])"
    if "letter < 4" for letter
  proof -
    have z: "[0, 0, 0, 0 :: real] ! letter = 0" using that by (auto simp: nth_Cons')
    have "\<forall>i<nat ?tot. real_of_int (py_round (dft ! i ! letter * 100)) / 100 = 0"
    proof (intro allI impI)
      fix i assume "i < nat ?tot"
      then have "dft ! i = [0, 0, 0, 0]" using assms(8) by simp
      then have "dft ! i ! letter = 0" using z by simp
      then show "real_of_int (py_round (dft ! i ! letter * 100)) / 100 = 0"
        by (simp add: py_round_def)
    qed
    from equi_depth_constant_row[OF _ assms(3) t this] show ?thesis using assms(1) by simp
  qed
  have "map_cases (mcb_row st dft ?tot) [0..<4]
        = Inr (map (\<lambda>l. replicate 65535 0 @ [float_max]) [0..<4])"
    by (rule map_cases_cong_Inr) (simp add: r)
  then show ?thesis using assms(1,2,4,5,6) by (simp add: mcb_def map_replicate_const)
qed

lemma ramp_fit:
  assumes "zs = [0, 0, 0, 0, 0, 0] \<or> zs = [0, 0, 0, 0, 0, 0, 0]"
  shows "fit plain_binning 1 (constructed (ramp_args r)) [[zs]] None =
     (None, (constructed (ramp_args r))\<lparr>priv_n_jobs := 1, letter_bits := 16,
        letter_max := 65535, word_bits := 64, max_bits := 64, n_cases := 1,
        n_timepoints := int (length zs), support := [0..<4], dft_length := 4,
        breakpoints := replicate 4 (replicate 65535 0 @ [float_max])\<rparr>)"
proof -
  let ?st4 = "(constructed (ramp_args r))\<lparr>priv_n_jobs := 1, letter_bits := 16,
        letter_max := 65535, word_bits := 64, max_bits := 64, n_cases := 1,
        n_timepoints := int (length zs)\<rparr>"
  let ?k = "\<lceil>real_of_int (n_timepoints ?st4) / real_of_int (window_size ?st4)\<rceil>"
  have "\<exists>dft. binning_dft ?st4 zs ?k = Inr dft \<and> ?k = int (length dft) \<and> dft \<noteq> []
           \<and> (\<forall>row\<in>set dft. row = [0, 0, 0, 0])"
    using assms
    by (auto simp: binning_dft_def ramp_constructed py_slice_def dft_zero_window Let_def)
  then obtain dft where d: "binning_dft ?st4 zs ?k = Inr dft" "?k = int (length dft)" "dft \<noteq> []"
    "\<forall>row\<in>set dft. row = [0, 0, 0, 0]" by blast
  have m: "mcb ?st4 dft = Inr (replicate 4 (replicate 65535 0 @ [float_max]))"
    using d(2,3,4) by (intro ramp_mcb) (simp_all add: ramp_constructed)
  have b: "plain_binning ?st4 [zs] None
             = Inr (replicate 4 (replicate 65535 0 @ [float_max]), [0..<4], 4)"
    unfolding plain_binning_def sfa_binning_def
    using d(1) m by (simp add: ramp_constructed Let_def)
  show ?thesis
    using b by (simp add: fit_def ramp_validate squeeze1_def ramp_constructed Let_def)
qed

lemma ramp_fields:
  assumes "zs = [0, 0, 0, 0, 0, 0] \<or> zs = [0, 0, 0, 0, 0, 0, 0]"
  shows "word_length (ramp_sfa r zs) = 4" "alphabet_size (ramp_sfa r zs) = 65536"
  "window_size (ramp_sfa r zs) = 6" "norm_opt (ramp_sfa r zs)"
  "dft_length (ramp_sfa r zs) = 4" "priv_use_fallback_dft (ramp_sfa r zs)"
  "inverse_sqrt_win_size (ramp_sfa r zs) = 1"
  "lower_bounding (ramp_sfa r zs)" "\<not> anova (ramp_sfa r zs)"
  "remove_repeat_words (ramp_sfa r zs) = r"
  "levels (ramp_sfa r zs) = 1" "\<not> bigrams (ramp_sfa r zs)"
  "\<not> skip_grams (ramp_sfa r zs)" "\<not> save_words (ramp_sfa r zs)"
  "\<not> priv_typed_dict (ramp_sfa r zs)"
  "letter_bits (ramp_sfa r zs) = 16" "word_bits (ramp_sfa r zs) = 64"
  "breakpoints (ramp_sfa r zs) = replicate 4 (replicate 65535 0 @ [float_max])"
  "n_timepoints (ramp_sfa r zs) = int (length zs)"
  by (simp_all add: ramp_sfa_def ramp_fit[OF assms] ramp_constructed)

lemma std_floor_gt: "1 / 10 ^ 8 < std_floor b"
  by (simp add: std_floor_def)

lemma incremental_stds_gt:
  "incremental_stds series ws r wl s q = Inr stds \<Longrightarrow> \<forall>x\<in>set stds. 1 / 10 ^ 8 < x"
proof (induction wl arbitrary: s q stds)
  case Nil
  then show ?case by simp
next
  case (Cons w wl)
  then show ?case
    using std_floor_gt by (fastforce simp: Let_def split: sum.splits)
qed

lemma calc_incremental_mean_std_gt:
  assumes "calc_incremental_mean_std series e ws = Inr stds"
  shows "\<forall>x\<in>set stds. 1 / 10 ^ 8 < x"
  using assms incremental_stds_gt std_floor_gt
  unfolding calc_incremental_mean_std_def Let_def
  by (fastforce split: if_splits sum.splits)

lemma ramp_stds:
  assumes "e = nat (max 1 (int (length series) - 6 + 1))"
  shows "\<exists>stds. calc_incremental_mean_std series e 6 = Inr stds \<and> length stds = e
           \<and> (\<forall>x\<in>set stds. 1 / 10 ^ 8 < x)"
  using calc_incremental_mean_std_ok[of 6 e series] calc_incremental_mean_std_gt assms by force

lemma trig_sixth:
  "cos (pi / 3) = 1 / 2" "sin (pi / 3) = sqrt 3 / 2"
  "cos (2 * pi / 3) = - (1 / 2)" "sin (2 * pi / 3) = sqrt 3 / 2"
  "cos (pi * 2 / 3) = - (1 / 2)" "sin (pi * 2 / 3) = sqrt 3 / 2"
  using cos_60 sin_60 cos_120 sin_120 by (simp_all add: mult.commute)

lemma ramp_seed:
  "discrete_fourier_transform [1, 1, 0, 0, 0, 0] 4 True 1 True False False
     = Inr [2, 0, 3 / 2, - (sqrt 3 / 2), 1 / 2, - (sqrt 3 / 2)]"
  by (simp add: discrete_fourier_transform_def dft_real_def dft_imag_def Let_def upt_conv_Cons
      trig_sixth)

lemma ramp_phis:
  "get_phis 6 6 = Inr [1, 0, 1 / 2, sqrt 3 / 2, - (1 / 2), sqrt 3 / 2]"
  by (simp add: get_phis_def upt_conv_Cons trig_sixth)

lemma ramp_mft_seed:
  assumes "zs = [0, 0, 0, 0, 0, 0] \<or> zs = [0, 0, 0, 0, 0, 0, 0]"
  shows "mft_seed (ramp_sfa r zs) (1 # 1 # 0 # 0 # 0 # 0 # rest) 6
     = Inr [2, 0, 3 / 2, - (sqrt 3 / 2), 1 / 2, - (sqrt 3 / 2)]"
  by (simp add: mft_seed_def ramp_fields[OF assms] slice0_def ramp_seed)

lemma ramp_mft_one:
  assumes "zs = [0, 0, 0, 0, 0, 0] \<or> zs = [0, 0, 0, 0, 0, 0, 0]"
  shows "\<exists>s. 1 / 10 ^ 8 < s \<and> mft (ramp_sfa r zs) [1, 1, 0, 0, 0, 0]
       = Inr [map (\<lambda>c. c / s) [3 / 2, sqrt 3 / 2, 1 / 2, sqrt 3 / 2]]"
proof -
  obtain stds where s: "calc_incremental_mean_std [1, 1, 0, 0, 0, 0] 1 6 = Inr stds"
    "length stds = 1" "\<forall>x\<in>set stds. 1 / 10 ^ 8 < x"
    using ramp_stds[of 1 "[1, 1, 0, 0, 0, 0]"] by auto
  then obtain s0 where s0: "stds = [s0]" by (cases stds) auto
  have "mft (ramp_sfa r zs) [1, 1, 0, 0, 0, 0]
       = Inr [map (\<lambda>c. c / s0) [3 / 2, sqrt 3 / 2, 1 / 2, sqrt 3 / 2]]"
    using s(1) unfolding s0
    by (simp add: mft_def ramp_fields[OF assms] ramp_phis ramp_mft_seed[OF assms] mft_output_def
        negate_odd_def Let_def upt_conv_Cons)
  then show ?thesis using s(3) s0 by auto
qed

lemma ramp_mft_two:
  assumes "zs = [0, 0, 0, 0, 0, 0] \<or> zs = [0, 0, 0, 0, 0, 0, 0]"
  shows "\<exists>s t. 1 / 10 ^ 8 < s \<and> 1 / 10 ^ 8 < t \<and> mft (ramp_sfa r zs) [1, 1, 0, 0, 0, 0, - 1]
       = Inr [map (\<lambda>c. c / s) [3 / 2, sqrt 3 / 2, 1 / 2, sqrt 3 / 2],
              map (\<lambda>c. c / t) [1 / 2, sqrt 3 / 2, 3 / 2, sqrt 3 / 2]]"
proof -
  obtain stds where s: "calc_incremental_mean_std [1, 1, 0, 0, 0, 0, - 1] 2 6 = Inr stds"
    "length stds = 2" "\<forall>x\<in>set stds. 1 / 10 ^ 8 < x"
    using ramp_stds[of 2 "[1, 1, 0, 0, 0, 0, - 1]"] by auto
  then obtain s0 s1 where s0: "stds = [s0, s1]"
    by (cases stds; cases "tl stds") auto
  have "mft (ramp_sfa r zs) [1, 1, 0, 0, 0, 0, - 1]
       = Inr [map (\<lambda>c. c / s0) [3 / 2, sqrt 3 / 2, 1 / 2, sqrt 3 / 2],
              map (\<lambda>c. c / s1) [1 / 2, sqrt 3 / 2, 3 / 2, sqrt 3 / 2]]"
    using s(1) unfolding s0
    by (simp add: mft_def ramp_fields[OF assms] ramp_phis ramp_mft_seed[OF assms] mft_output_def
        negate_odd_def item_def Let_def upt_conv_Cons)
  then show ?thesis using s(3) s0 by auto
qed

lemma find_bin_replicate:
  assumes "v < x" "x \<le> m"
  shows "find_bin x (replicate n v @ [m]) (int n + 1) = Some n"
proof -
  have "List.find (\<lambda>bp. x \<le> (replicate n v @ [m]) ! bp) [0..<Suc n] = Some n"
    unfolding find_Some_iff
    using assms by (intro exI[of _ n]) (auto simp: nth_append)
  then show ?thesis by (simp add: find_bin_def nat_add_distrib)
qed

lemma mask_word_step: "push_bit 16 (mask k :: 64 word) OR mask 16 = mask (k + 16)"
  by (rule bit_eqI) (auto simp: bit_simps)

lemma mask_words: "((\<lambda>w. push_bit 16 w OR mask 16) ^^ n) (0 :: 64 word) = mask (16 * n)"
proof (induction n)
  case 0
  show ?case by simp
next
  case (Suc n)
  then show ?case using mask_word_step[of "16 * n"] by (simp add: add.commute)
qed

lemma ramp_word:
  assumes z: "zs = [0, 0, 0, 0, 0, 0] \<or> zs = [0, 0, 0, 0, 0, 0, 0]"
    and "length cs = 4" "\<forall>c\<in>set cs. 0 < c \<and> c \<le> 2" "1 / 10 ^ 8 < s"
  shows "window_word (ramp_sfa r zs) (map (\<lambda>c. c / s) cs) = - 1"
proof -
  let ?row = "map (\<lambda>c. c / s) cs"
  note f = ramp_fields[OF z]
  have s: "0 < s"
    using assms(4) by (smt (verit) zero_less_divide_1_iff zero_less_numeral zero_less_power)
  have bin: "find_bin (?row ! i) (breakpoints (ramp_sfa r zs) ! i) 65536 = Some 65535"
    if "i < 4" for i
  proof -
    have c: "0 < cs ! i" "cs ! i \<le> 2" using assms(2,3) that by auto
    have pos: "0 < cs ! i / s" using c(1) s by simp
    have "cs ! i / s \<le> 2 / s" using c(2) s by (simp add: divide_right_mono)
    also have "\<dots> \<le> 2 * 10 ^ 8" using assms(4) s by (simp add: field_simps)
    also have "\<dots> \<le> float_max" by (simp add: float_max_def)
    finally have le: "cs ! i / s \<le> float_max" .
    have "find_bin (cs ! i / s) (replicate 65535 0 @ [float_max]) (int 65535 + 1) = Some 65535"
      using find_bin_replicate[OF pos le, of 65535] by simp
    then show ?thesis using that assms(2) by (simp add: f)
  qed
  have "create_word ?row (int 4) 65536 (breakpoints (ramp_sfa r zs)) 16
       = ((\<lambda>w. push_bit (nat 16) w OR of_nat 65535) ^^ 4) 0"
    by (rule create_word_const) (simp add: bin)
  also have "\<dots> = ((\<lambda>w. push_bit 16 w OR mask 16) ^^ 4) (0 :: 64 word)"
    by (simp add: mask_eq_exp_minus_1)
  also have "\<dots> = - 1" unfolding mask_words by (simp add: mask_eq_exp_minus_1)
  finally show ?thesis by (simp add: window_word_def f)
qed

lemma ramp_rows:
  "length [3 / 2, sqrt 3 / 2, 1 / 2, sqrt 3 / 2 :: real] = 4"
  "\<forall>c\<in>set [3 / 2, sqrt 3 / 2, 1 / 2, sqrt 3 / 2 :: real]. 0 < c \<and> c \<le> 2"
  "length [1 / 2, sqrt 3 / 2, 3 / 2, sqrt 3 / 2 :: real] = 4"
  "\<forall>c\<in>set [1 / 2, sqrt 3 / 2, 3 / 2, sqrt 3 / 2 :: real]. 0 < c \<and> c \<le> 2"
proof -
  have "sqrt 3 \<le> 2" by (rule real_le_lsqrt) simp_all
  then show "\<forall>c\<in>set [3 / 2, sqrt 3 / 2, 1 / 2, sqrt 3 / 2 :: real]. 0 < c \<and> c \<le> 2"
    "\<forall>c\<in>set [1 / 2, sqrt 3 / 2, 3 / 2, sqrt 3 / 2 :: real]. 0 < c \<and> c \<le> 2"
    by simp_all
qed simp_all

lemma ramp_case_one:
  assumes z: "zs = [0, 0, 0, 0, 0, 0] \<or> zs = [0, 0, 0, 0, 0, 0, 0]"
    and "window_word (ramp_sfa r zs) row = - 1"
  shows "transform_case (ramp_sfa r zs) [row]
           = Inr (if r then Map.empty else [IntKey (- 1) \<mapsto> 1], [])"
  using assms(2)
  by (simp add: transform_case_def transform_window_def count_word_def add_to_bag_def
      bag_add_def bag_get_def ngrams_def ramp_fields[OF z] Let_def)

lemma ramp_case_two:
  assumes z: "zs = [0, 0, 0, 0, 0, 0] \<or> zs = [0, 0, 0, 0, 0, 0, 0]"
    and "window_word (ramp_sfa r zs) row = - 1" "window_word (ramp_sfa r zs) row' = - 1"
  shows "transform_case (ramp_sfa r zs) [row, row']
           = Inr (if r then Map.empty else [IntKey (- 1) \<mapsto> 2], [])"
proof (cases r)
  case True
  then show ?thesis
    using assms(2,3)
    by (simp add: transform_case_def transform_window_def count_word_def add_to_bag_def
        bag_add_def bag_get_def ngrams_def ramp_fields[OF z] Let_def upt_conv_Cons)
next
  case False
  then show ?thesis
    using assms(2,3)
    by (simp add: transform_case_def transform_window_def count_word_def add_to_bag_def
        bag_add_def bag_get_def ngrams_def ramp_fields[OF z] Let_def upt_conv_Cons
        numeral_2_eq_2)
qed

text \<open>
  C9 (the code at the failing input). The claim: with numerosity reduction the first
  window of a series is always counted, because every word is nonnegative and so differs
  from the sentinel \<open>-1\<close> of the repeat tracker. The code:
  \<^verbatim>\<open>SFA(word_length=4, alphabet_size=65536, window_size=6, norm=True,
  remove_repeat_words=True)\<close> has four letters of 16 bits, \<^verbatim>\<open>word_bits = 64\<close>, which
  still takes the 64-bit routine. Fitted on the series of six zeros, every breakpoint
  below the last one is 0. The series \<open>[1, 1, 0, 0, 0, 0]\<close> has one window, and its
  four coefficients (\<open>3/2\<close>, \<open>sqrt 3 / 2\<close>, \<open>1/2\<close>, \<open>sqrt 3 / 2\<close>, over the
  standard deviation of the window) are positive: every letter is 65535, the word is
  \<open>-1\<close> as a 64-bit integer, equal to the initial \<^verbatim>\<open>last_word\<close>; the window is
  suppressed and the bag is empty.
\<close>

theorem sentinel_first_window_suppressed:
  "fst (fit plain_binning 1 (constructed (ramp_args True)) [[[0, 0, 0, 0, 0, 0]]] None) = None
   \<and> word_bits (ramp_sfa True [0, 0, 0, 0, 0, 0]) = 64
   \<and> breakpoints (ramp_sfa True [0, 0, 0, 0, 0, 0])
        = replicate 4 (replicate 65535 0 @ [float_max])
   \<and> \<not> isl (mft (ramp_sfa True [0, 0, 0, 0, 0, 0]) [1, 1, 0, 0, 0, 0])
   \<and> map (window_word (ramp_sfa True [0, 0, 0, 0, 0, 0]))
        (projr (mft (ramp_sfa True [0, 0, 0, 0, 0, 0]) [1, 1, 0, 0, 0, 0])) = [- 1]
   \<and> transform_series (ramp_sfa True [0, 0, 0, 0, 0, 0]) [1, 1, 0, 0, 0, 0]
        = Inr (Map.empty, [])"
proof -
  let ?st = "ramp_sfa True [0, 0, 0, 0, 0, 0]"
  have z: "[0, 0, 0, 0, 0, 0] = [0, 0, 0, 0, 0, 0] \<or> [0, 0, 0, 0, 0, 0] = [0, 0, 0, 0, 0, 0, 0 :: real]"
    by simp
  obtain s where s: "1 / 10 ^ 8 < s" "mft ?st [1, 1, 0, 0, 0, 0]
       = Inr [map (\<lambda>c. c / s) [3 / 2, sqrt 3 / 2, 1 / 2, sqrt 3 / 2]]"
    using ramp_mft_one[OF z] by blast
  define row where "row = map (\<lambda>c. c / s) [3 / 2, sqrt 3 / 2, 1 / 2, sqrt 3 / 2]"
  have m: "mft ?st [1, 1, 0, 0, 0, 0] = Inr [row]"
    unfolding row_def using s(2) .
  have w: "window_word ?st row = - 1"
    unfolding row_def using ramp_word[OF z ramp_rows(1,2) s(1)] .
  show ?thesis
    using ramp_case_one[OF z w] w
    by (simp add: transform_series_def m ramp_fit[OF z] ramp_fields[OF z])
qed

text \<open>
  C8 (the code at the failing input). The claim: when every window of a series has the
  same word, numerosity reduction leaves a bag with count 1 for that word, and without
  it the count is the number of windows. The code, for the transformer of C9 fitted on
  the series of seven zeros: the series \<open>[1, 1, 0, 0, 0, 0, -1]\<close> has two windows,
  both with four positive coefficients and so both with the word \<open>-1\<close>, the sentinel
  of the repeat tracker. Without numerosity reduction the bag counts the word twice;
  with it both windows are suppressed and the bag is empty.
\<close>

theorem constant_series_bag_empty:
  "fst (fit plain_binning 1 (constructed (ramp_args True)) [[[0, 0, 0, 0, 0, 0, 0]]] None) = None
   \<and> \<not> isl (mft (ramp_sfa True [0, 0, 0, 0, 0, 0, 0]) [1, 1, 0, 0, 0, 0, - 1])
   \<and> map (window_word (ramp_sfa True [0, 0, 0, 0, 0, 0, 0]))
        (projr (mft (ramp_sfa True [0, 0, 0, 0, 0, 0, 0]) [1, 1, 0, 0, 0, 0, - 1])) = [- 1, - 1]
   \<and> transform_series (ramp_sfa True [0, 0, 0, 0, 0, 0, 0]) [1, 1, 0, 0, 0, 0, - 1]
        = Inr (Map.empty, [])
   \<and> transform_series (ramp_sfa False [0, 0, 0, 0, 0, 0, 0]) [1, 1, 0, 0, 0, 0, - 1]
        = Inr ([IntKey (- 1) \<mapsto> 2], [])"
proof -
  have z: "[0, 0, 0, 0, 0, 0, 0] = [0, 0, 0, 0, 0, 0]
             \<or> [0, 0, 0, 0, 0, 0, 0] = [0, 0, 0, 0, 0, 0, 0 :: real]"
    by simp
  have *: "\<not> isl (mft (ramp_sfa r [0, 0, 0, 0, 0, 0, 0]) [1, 1, 0, 0, 0, 0, - 1])
     \<and> map (window_word (ramp_sfa r [0, 0, 0, 0, 0, 0, 0]))
          (projr (mft (ramp_sfa r [0, 0, 0, 0, 0, 0, 0]) [1, 1, 0, 0, 0, 0, - 1])) = [- 1, - 1]
     \<and> transform_series (ramp_sfa r [0, 0, 0, 0, 0, 0, 0]) [1, 1, 0, 0, 0, 0, - 1]
          = Inr (if r then Map.empty else [IntKey (- 1) \<mapsto> 2], [])" for r
  proof -
    let ?st = "ramp_sfa r [0, 0, 0, 0, 0, 0, 0]"
    obtain s t where s: "1 / 10 ^ 8 < s" "1 / 10 ^ 8 < t"
      "mft ?st [1, 1, 0, 0, 0, 0, - 1]
         = Inr [map (\<lambda>c. c / s) [3 / 2, sqrt 3 / 2, 1 / 2, sqrt 3 / 2],
                map (\<lambda>c. c / t) [1 / 2, sqrt 3 / 2, 3 / 2, sqrt 3 / 2]]"
      using ramp_mft_two[OF z] by blast
    define row where "row = map (\<lambda>c. c / s) [3 / 2, sqrt 3 / 2, 1 / 2, sqrt 3 / 2]"
    define row' where "row' = map (\<lambda>c. c / t) [1 / 2, sqrt 3 / 2, 3 / 2, sqrt 3 / 2]"
    have m: "mft ?st [1, 1, 0, 0, 0, 0, - 1] = Inr [row, row']"
      unfolding row_def row'_def using s(3) .
    have w: "window_word ?st row = - 1" "window_word ?st row' = - 1"
      unfolding row_def row'_def
      using ramp_word[OF z ramp_rows(1,2) s(1)] ramp_word[OF z ramp_rows(3,4) s(2)] by blast+
    show ?thesis
      using ramp_case_two[OF z w] w
      by (simp add: transform_series_def m)
  qed
  show ?thesis using *[of True] *[of False] ramp_fit[OF z, of True] by simp
qed

subsection \<open>Shortening: the bag of the shortened words\<close>

lemma ceil_log2_nonneg: "1 \<le> a \<Longrightarrow> 0 \<le> ceil_log2 a"
proof -
  assume "1 \<le> a"
  then have "0 \<le> log 2 (real_of_int a)" by simp
  then show ?thesis unfolding ceil_log2_def by linarith
qed

lemma fitted_facts:
  assumes "fitted st"
  shows "0 \<le> letter_bits st" "alphabet_size st \<le> 2 ^ nat (letter_bits st)"
    "1 \<le> word_length st" "word_bits st = word_length st * letter_bits st"
  using assms alphabet_le_pow[of "alphabet_size st"] ceil_log2_nonneg[of "alphabet_size st"]
  by (simp_all add: fitted_def)

lemma nat_mult_nonneg: "0 \<le> x \<Longrightarrow> 0 \<le> y \<Longrightarrow> nat (x * y) = nat x * nat y"
  by (simp add: nat_mult_distrib)

lemma window_word_pack:
  assumes c: "classifiable dft (nat (word_length st)) (alphabet_size st) (breakpoints st)"
    and a: "alphabet_size st \<le> 2 ^ nat (letter_bits st)"
    and nn: "0 \<le> letter_bits st" "0 \<le> word_length st"
    and wb: "word_bits st = word_length st * letter_bits st" "word_bits st \<noteq> 64"
  shows "window_word st dft =
           pack_int (nat (letter_bits st))
             (create_word_full dft (word_length st) (alphabet_size st) (breakpoints st)
                (letter_bits st))"
proof (cases "word_bits st \<le> 64")
  case False
  then show ?thesis using create_word_large_pack[OF c] by (simp add: window_word_def)
next
  case True
  let ?bs = "create_word_full dft (word_length st) (alphabet_size st) (breakpoints st)
                (letter_bits st)"
  have fit: "\<forall>b\<in>set ?bs. b < 2 ^ nat (letter_bits st)" using c a by (rule letters_fit)
  have "int (length ?bs * nat (letter_bits st)) = word_bits st"
    using nn wb(1) by (simp add: length_letters)
  then have "length ?bs * nat (letter_bits st) < 64" using True wb(2) by linarith
  then have "sint (pack_word (nat (letter_bits st)) ?bs) = pack_int (nat (letter_bits st)) ?bs"
    using fit by (intro sint_pack_word) simp_all
  then show ?thesis using True create_word_pack[OF c, of "letter_bits st" "letter_bits st"]
    by (simp add: window_word_def)
qed

lemma letters_take:
  assumes "l \<le> wl" "\<forall>i<nat l. dft' ! i = dft ! i"
  shows "create_word_full dft' l a (take (nat l) bps) lb
           = take (nat l) (create_word_full dft wl a bps lb)"
proof -
  have "nat l \<le> nat wl" using assms(1) by simp
  then have "take (nat l) (create_word_full dft wl a bps lb)
      = map (\<lambda>i. case find_bin (dft ! i) (bps ! i) a of None \<Rightarrow> 0 | Some bp \<Rightarrow> bp) [0..<nat l]"
    by (simp add: create_word_full_def take_map min_def)
  also have "\<dots> = create_word_full dft' l a (take (nat l) bps) lb"
    using assms(2) by (simp add: create_word_full_def)
  finally show ?thesis by simp
qed

lemma classifiable_refit:
  assumes "classifiable dft (nat wl) a bps" "l \<le> wl" "\<forall>i<nat l. dft' ! i = dft ! i"
  shows "classifiable dft' (nat l) a (take (nat l) bps)"
  using assms by (auto simp: classifiable_def)

lemma shorten_words_pack:
  assumes "0 \<le> x" "x < 2 ^ 63 \<or> 64 < word_bits st"
  shows "shorten_words st x l = drop_bit (nat ((word_length st - l) * letter_bits st)) x"
proof (cases "word_bits st \<le> 64")
  case False
  then show ?thesis by (simp add: shorten_words_def shorten_word_large_def)
next
  case True
  then have "x < 2 ^ 63" using assms(2) by simp
  then have "sint (word_of_int x :: 64 word) = x"
    using assms(1) by (simp add: sint_sbintrunc' signed_take_bit_int_eq_self)
  then show ?thesis using True
    by (simp add: shorten_words_def shorten_word_def sint_signed_drop_bit_eq)
qed

lemma shortened_word:
  assumes f: "fitted st" and l: "1 \<le> l" "l \<le> word_length st"
    and b: "word_bits st \<noteq> 64" "l * letter_bits st \<noteq> 64"
    and c: "classifiable dft (nat (word_length st)) (alphabet_size st) (breakpoints st)"
    and ag: "\<forall>i<nat l. dft' ! i = dft ! i"
  shows "shorten_words st (window_word st dft) l = window_word (refit st l) dft'"
proof -
  note ff = fitted_facts[OF f]
  let ?lb = "nat (letter_bits st)"
  let ?bs = "create_word_full dft (word_length st) (alphabet_size st) (breakpoints st)
                (letter_bits st)"
  have w: "window_word st dft = pack_int ?lb ?bs"
    using c ff b(1) by (intro window_word_pack) simp_all
  have fit: "\<forall>b\<in>set ?bs. b < 2 ^ ?lb" using c ff(2) by (rule letters_fit)
  have len: "length ?bs = nat (word_length st)" by (simp add: length_letters)
  have nn: "0 \<le> pack_int ?lb ?bs" by (rule pack_int_nonneg)
  have bound: "pack_int ?lb ?bs < 2 ^ (length ?bs * ?lb)" using fit by (rule pack_int_bound)
  have wbn: "int (length ?bs * ?lb) = word_bits st" using ff len by simp
  have small: "pack_int ?lb ?bs < 2 ^ 63 \<or> 64 < word_bits st"
  proof (cases "word_bits st \<le> 64")
    case True
    then have "length ?bs * ?lb \<le> 63" using wbn b(1) by linarith
    then have "(2::int) ^ (length ?bs * ?lb) \<le> 2 ^ 63" by (intro power_increasing) simp_all
    then show ?thesis using bound by linarith
  next
    case False
    then show ?thesis by simp
  qed
  have sh: "nat ((word_length st - l) * letter_bits st) = (length ?bs - nat l) * ?lb"
    using l ff(1) len by (simp add: nat_mult_nonneg nat_diff_distrib)
  have "shorten_words st (window_word st dft) l = drop_bit ((length ?bs - nat l) * ?lb)
          (pack_int ?lb ?bs)"
    using shorten_words_pack[OF nn small] by (simp add: w sh)
  also have "\<dots> = pack_int ?lb (take (nat l) ?bs)"
    using fit l len by (intro pack_int_take) simp_all
  also have "take (nat l) ?bs
      = create_word_full dft' l (alphabet_size st) (take (nat l) (breakpoints st)) (letter_bits st)"
    using letters_take[OF l(2) ag] by simp
  also have "pack_int ?lb (create_word_full dft' l (alphabet_size st)
                 (take (nat l) (breakpoints st)) (letter_bits st))
      = window_word (refit st l) dft'"
  proof -
    have c': "classifiable dft' (nat (word_length (refit st l))) (alphabet_size (refit st l))
                (breakpoints (refit st l))"
      using classifiable_refit[OF c l(2) ag] by (simp add: refit_def)
    have "window_word (refit st l) dft' =
           pack_int (nat (letter_bits (refit st l)))
             (create_word_full dft' (word_length (refit st l)) (alphabet_size (refit st l))
                (breakpoints (refit st l)) (letter_bits (refit st l)))"
      using c' ff l b(2) by (intro window_word_pack) (simp_all add: refit_def)
    then show ?thesis by (simp add: refit_def)
  qed
  finally show ?thesis .
qed

lemma ngrams_none: "\<not> bigrams st \<Longrightarrow> \<not> skip_grams st \<Longrightarrow> ngrams st b f ws w x bag = Inr bag"
  by (simp add: ngrams_def)

lemma refit_same:
  "levels (refit st l) = levels st" "remove_repeat_words (refit st l) = remove_repeat_words st"
  "priv_typed_dict (refit st l) = priv_typed_dict st" "level_bits (refit st l) = level_bits st"
  "n_timepoints (refit st l) = n_timepoints st" "window_size (refit st l) = window_size st"
  "bigrams (refit st l) = bigrams st" "skip_grams (refit st l) = skip_grams st"
  "word_bits (refit st l) = l * letter_bits st" "alphabet_size (refit st l) = alphabet_size st"
  "letter_bits (refit st l) = letter_bits st" "word_length (refit st l) = l"
  "breakpoints (refit st l) = take (nat l) (breakpoints st)"
  "save_words (refit st l) = save_words st"
  by (simp_all add: refit_def)

lemma bag_add_refit: "bag_add (refit st l) = bag_add st"
  by (intro ext) (simp add: bag_add_def refit_same)

lemma add_to_bag_refit: "add_to_bag (refit st l) = add_to_bag st"
  by (intro ext) (simp add: add_to_bag_def refit_same bag_add_refit)

lemma level_key_refit:
  assumes "priv_typed_dict st
           \<or> ((word_bits st + level_bits st \<le> 64) = (l * letter_bits st + level_bits st \<le> 64))"
  shows "level_key (refit st l) x start i wi = level_key st x start i wi"
  using assms
  by (auto simp: level_key_def quadrant_def add_level_large_def refit_same Let_def
      split: sum.splits)

lemma add_levels_refit:
  assumes "priv_typed_dict st
           \<or> ((word_bits st + level_bits st \<le> 64) = (l * letter_bits st + level_bits st \<le> 64))"
  shows "add_levels (refit st l) x wi lvls start bag = add_levels st x wi lvls start bag"
  by (induction lvls arbitrary: start bag)
    (simp_all add: level_key_refit[OF assms] bag_add_refit split: sum.splits)

lemma count_word_refit:
  assumes r: "levels st \<le> 1 \<or> priv_typed_dict st
           \<or> ((word_bits st + level_bits st \<le> 64) = (l * letter_bits st + level_bits st \<le> 64))"
    and t: "same_tally s s'"
  shows "rel_sum (=) same_tally (count_word st w x s) (count_word (refit st l) w x s')"
proof (cases "levels st > 1")
  case False
  then show ?thesis
    using t by (simp add: count_word_def refit_same add_to_bag_refit add_to_bag_def same_tally_def)
next
  case True
  then have a: "priv_typed_dict st
           \<or> ((word_bits st + level_bits st \<le> 64) = (l * letter_bits st + level_bits st \<le> 64))"
    using r by auto
  have p: "add_to_pyramid (refit st l) b x lw wi = add_to_pyramid st b x lw wi" for b lw wi
    by (simp add: add_to_pyramid_def refit_same add_levels_refit[OF a])
  show ?thesis
    using t True
    by (auto simp: count_word_def refit_same p same_tally_def split: sum.splits)
qed

lemma run_windows_rel:
  assumes "\<And>w s s'. w \<in> set wl \<Longrightarrow> R s s' \<Longrightarrow> rel_sum (=) R (f w s) (g w s')" "R s s'"
  shows "rel_sum (=) R (run_windows f wl s) (run_windows g wl s')"
  using assms
proof (induction wl arbitrary: s s')
  case Nil
  then show ?case by simp
next
  case (Cons w wl)
  have rel: "rel_sum (=) R (f w s) (g w s')" using Cons.prems by simp
  show ?case
  proof (cases "f w s")
    case (Inl e)
    then have "g w s' = Inl e" using rel by (cases "g w s'") auto
    then show ?thesis using Inl by simp
  next
    case (Inr a)
    then obtain b where b: "g w s' = Inr b" "R a b" using rel by (cases "g w s'") auto
    have "rel_sum (=) R (run_windows f wl a) (run_windows g wl b)"
      using Cons.prems(1) b(2) by (intro Cons.IH) auto
    then show ?thesis using Inr b(1) by simp
  qed
qed

lemma transform_window_words:
  "transform_window st dfts w s = Inr s' \<Longrightarrow>
     word_array s' = (word_array s)[w := window_word st (dfts ! w)]"
  by (auto simp: transform_window_def count_word_def Let_def split: sum.splits if_splits)

lemma run_windows_words:
  "run_windows (transform_window st dfts) wl s = Inr s' \<Longrightarrow>
     word_array s' = fold (\<lambda>w a. a[w := window_word st (dfts ! w)]) wl (word_array s)"
proof (induction wl arbitrary: s)
  case Nil
  then show ?case by simp
next
  case (Cons w wl)
  then obtain s1 where s1: "transform_window st dfts w s = Inr s1"
    "run_windows (transform_window st dfts) wl s1 = Inr s'"
    by (auto split: sum.splits)
  show ?case using Cons.IH[OF s1(2)] transform_window_words[OF s1(1)] by simp
qed

lemma fold_update_upt:
  "k \<le> length xs \<Longrightarrow> fold (\<lambda>w a. a[w := f w]) [0..<k] xs = map f [0..<k] @ drop k xs"
proof (induction k)
  case 0
  show ?case by simp
next
  case (Suc k)
  then have "fold (\<lambda>w a. a[w := f w]) [0..<Suc k] xs = (map f [0..<k] @ drop k xs)[k := f k]"
    by simp
  also have "\<dots> = map f [0..<k] @ (drop k xs)[0 := f k]"
    by (simp add: list_update_append)
  also have "(drop k xs)[0 := f k] = f k # drop (Suc k) xs"
    using Suc.prems by (metis Cons_nth_drop_Suc Suc_le_lessD list_update_code(2))
  finally show ?case by simp
qed

lemma saved_words:
  assumes "transform_case st dfts = Inr (bag, ws)" "save_words st"
  shows "ws = map (window_word st) dfts"
proof -
  obtain s where s: "run_windows (transform_window st dfts) [0..<length dfts]
             \<lparr>the_bag = Map.empty, last_word = - 1, repeat_words = 0,
              word_array = replicate (length dfts) 0\<rparr> = Inr s" "ws = word_array s"
    using assms by (auto simp: transform_case_def split: sum.splits)
  have "word_array s = map (\<lambda>w. window_word st (dfts ! w)) [0..<length dfts]"
    using run_windows_words[OF s(1)]
      fold_update_upt[of "length dfts" "replicate (length dfts) 0"
        "\<lambda>w. window_word st (dfts ! w)"]
    by simp
  also have "\<dots> = map (window_word st) dfts"
    by (simp add: map_equality_iff)
  finally show ?thesis using s(2) by simp
qed

text \<open>
  C1 (amended). For a fitted transformer that saves its words and counts neither bigrams
  nor skip-grams, and a target length \<open>l\<close> between 1 and \<^verbatim>\<open>word_length\<close>:
  \<^verbatim>\<open>_shorten_case\<close> on the words saved by the transform of a series gives exactly the
  bag of the transform with \<^verbatim>\<open>word_length = l\<close>, the bit widths of \<open>l\<close> letters and the
  breakpoints truncated to the first \<open>l\<close> letter rows, on coefficient rows that agree
  with those of the full transform in their first \<open>l\<close> coefficients; numerosity
  reduction and the pyramid are included. The words do not fill all 64 bits
  (\<^verbatim>\<open>word_bits\<close> and \<open>l * letter_bits\<close> differ from 64), the pyramid keys of both
  lengths are built by the same routine, and every coefficient finds a bin (it is not
  above \<^verbatim>\<open>sys.float_info.max\<close>).
\<close>

theorem shortening_equivalence:
  assumes "fitted st" "save_words st" "1 \<le> l" "l \<le> word_length st"
    and "\<not> bigrams st" "\<not> skip_grams st"
    and "word_bits st \<noteq> 64" "l * letter_bits st \<noteq> 64"
    and "levels st \<le> 1 \<or> priv_typed_dict st
         \<or> ((word_bits st + level_bits st \<le> 64) = (l * letter_bits st + level_bits st \<le> 64))"
    and "\<forall>row\<in>set dfts.
           classifiable row (nat (word_length st)) (alphabet_size st) (breakpoints st)"
    and "length dfts' = length dfts"
    and "\<forall>w<length dfts. \<forall>i<nat l. dfts' ! w ! i = dfts ! w ! i"
    and "transform_case st dfts = Inr (bag, ws)"
  shows "shorten_case st l ws = bag_of (transform_case (refit st l) dfts')"
proof -
  let ?n = "length dfts"
  have ws: "ws = map (window_word st) dfts" using saved_words[OF assms(13,2)] .
  have lw: "length ws = length dfts" using ws by simp
  let ?s0 = "\<lparr>the_bag = Map.empty, last_word = - 1, repeat_words = 0, word_array = []\<rparr>"
  let ?t0 = "\<lparr>the_bag = Map.empty, last_word = - 1, repeat_words = 0,
              word_array = replicate (length dfts') 0\<rparr>"
  have step: "rel_sum (=) same_tally (shorten_window st l ws w s)
                (transform_window (refit st l) dfts' w s')"
    if "w \<in> set [0..<?n]" "same_tally s s'" for w s s'
  proof -
    have w: "w < ?n" using that(1) by simp
    have c: "classifiable (dfts ! w) (nat (word_length st)) (alphabet_size st) (breakpoints st)"
      using assms(10) w by simp
    have ag: "\<forall>i<nat l. dfts' ! w ! i = dfts ! w ! i" using assms(12) w by simp
    have x: "shorten_words st (ws ! w) l = window_word (refit st l) (dfts' ! w)"
      using shortened_word[OF assms(1,3,4,7,8) c ag] w by (simp add: ws)
    let ?s1 = "s'\<lparr>word_array := (word_array s')[w := window_word (refit st l) (dfts' ! w)]\<rparr>"
    have t1: "same_tally s ?s1" using that(2) by (simp add: same_tally_def)
    have "rel_sum (=) same_tally (count_word st w (window_word (refit st l) (dfts' ! w)) s)
            (count_word (refit st l) w (window_word (refit st l) (dfts' ! w)) ?s1)"
      using count_word_refit[OF assms(9) t1] .
    then show ?thesis
      using assms(5,6)
      by (cases "count_word st w (window_word (refit st l) (dfts' ! w)) s";
          cases "count_word (refit st l) w (window_word (refit st l) (dfts' ! w)) ?s1")
        (simp_all add: shorten_window_def transform_window_def x ngrams_none refit_same Let_def
          same_tally_def)
  qed
  have "same_tally ?s0 ?t0" by (simp add: same_tally_def)
  then have "rel_sum (=) same_tally
               (run_windows (shorten_window st l ws) [0..<?n] ?s0)
               (run_windows (transform_window (refit st l) dfts') [0..<?n] ?t0)"
    using step by (intro run_windows_rel) auto
  then show ?thesis
    by (cases "run_windows (shorten_window st l ws) [0..<?n] ?s0";
        cases "run_windows (transform_window (refit st l) dfts') [0..<?n] ?t0")
      (simp_all add: shorten_case_def transform_case_def bag_of_def assms(11) refit_same
        same_tally_def lw)
qed

lemma ceil_log2_4: "ceil_log2 4 = 2"
  using ceil_log2_eq[of 1 4] by simp

lemma gram_constructed:
  assumes "w = 1 \<or> w = 2"
  shows "word_length (constructed (gram_args b w)) = w"
    "alphabet_size (constructed (gram_args b w)) = 4"
    "window_size (constructed (gram_args b w)) = 1" "\<not> norm_opt (constructed (gram_args b w))"
    "dft_length (constructed (gram_args b w)) = 2"
    "priv_use_fallback_dft (constructed (gram_args b w))"
    "inverse_sqrt_win_size (constructed (gram_args b w)) = 1"
    "lower_bounding (constructed (gram_args b w))" "\<not> anova (constructed (gram_args b w))"
    "binning_method (constructed (gram_args b w)) = ''equi-depth''"
    "\<not> remove_repeat_words (constructed (gram_args b w))"
    "levels (constructed (gram_args b w)) = 1" "bigrams (constructed (gram_args b w)) = b"
    "\<not> skip_grams (constructed (gram_args b w))" "save_words (constructed (gram_args b w))"
    "\<not> priv_typed_dict (constructed (gram_args b w))"
    "n_jobs (constructed (gram_args b w)) = IntJobs 1"
    "support (constructed (gram_args b w)) = [0..<nat w]"
  using assms by (auto simp: constructed_def init_def gram_args_def default_args_def Let_def)

lemma gram_validate:
  assumes "w = 1 \<or> w = 2"
  shows "fit_validate 1 (constructed (gram_args b w)) False =
     (None, (constructed (gram_args b w))\<lparr>priv_n_jobs := 1, letter_bits := 2,
        letter_max := 3, word_bits := w * 2, max_bits := (if b then w * 2 * 2 else w * 2)\<rparr>)"
  using assms
  by (auto simp: fit_validate_def check_n_jobs_def gram_constructed binning_methods_def Let_def
      ceil_log2_4)

lemma point_dft:
  "discrete_fourier_transform [x] 2 False 1 True True True = Inr [x, 0]"
  by (simp add: discrete_fourier_transform_def dft_real_def dft_imag_def negate_odd_def np_std_def
      np_mean_def Let_def upt_conv_Cons)

lemma gram_binning_dft:
  assumes "dft_length st = 2" "window_size st = 1" "n_timepoints st = 4"
    "priv_use_fallback_dft st" "\<not> norm_opt st" "inverse_sqrt_win_size st = 1" "lower_bounding st"
  shows "binning_dft st [0, 1, 2, 3] 4 = Inr [[0, 0], [1, 0], [2, 0], [3, 0]]"
  using assms
  by (simp add: binning_dft_def py_slice_def point_dft Let_def upt_conv_Cons)

lemma round_hundreds:
  "py_round (0 * 100) = 0" "py_round (1 * 100) = 100" "py_round (2 * 100) = 200"
  "py_round (3 * 100) = 300"
  by (simp_all add: py_round_def Let_def)

lemma gram_mcb:
  assumes "alphabet_size st = 4" "word_length st = w" "w = 1 \<or> w = 2"
    "binning_method st = ''equi-depth''" "window_size st = 1" "n_cases st = 1"
    "n_timepoints st = 4"
  shows "mcb st [[0, 0], [1, 0], [2, 0], [3, 0]]
           = Inr (take (nat w) [[1, 2, 3, float_max], [0, 0, 0, float_max]])"
  using assms round_hundreds
  by (auto simp: mcb_def mcb_row_def mcb_column_def Let_def upt_conv_Cons numeral_2_eq_2)


lemma gram_fit:
  assumes w: "w = 1 \<or> w = 2"
  shows "fit plain_binning 1 (constructed (gram_args b w)) [[[0, 1, 2, 3]]] None =
     (None, (constructed (gram_args b w))\<lparr>priv_n_jobs := 1, letter_bits := 2,
        letter_max := 3, word_bits := w * 2, max_bits := (if b then w * 2 * 2 else w * 2),
        n_cases := 1, n_timepoints := 4, support := [0..<nat w], dft_length := 2,
        breakpoints := take (nat w) [[1, 2, 3, float_max], [0, 0, 0, float_max]]\<rparr>)"
proof -
  let ?st4 = "(constructed (gram_args b w))\<lparr>priv_n_jobs := 1, letter_bits := 2,
        letter_max := 3, word_bits := w * 2, max_bits := (if b then w * 2 * 2 else w * 2),
        n_cases := 1, n_timepoints := 4\<rparr>"
  note c = gram_constructed[OF w]
  have d: "binning_dft ?st4 [0, 1, 2, 3] 4 = Inr [[0, 0], [1, 0], [2, 0], [3, 0]]"
    by (rule gram_binning_dft) (simp_all add: c)
  have m: "mcb ?st4 [[0, 0], [1, 0], [2, 0], [3, 0]]
             = Inr (take (nat w) [[1, 2, 3, float_max], [0, 0, 0, float_max]])"
    by (rule gram_mcb[OF _ _ w]) (simp_all add: c)
  have b: "plain_binning ?st4 [[0, 1, 2, 3]] None
             = Inr (take (nat w) [[1, 2, 3, float_max], [0, 0, 0, float_max]], [0..<nat w], 2)"
    unfolding plain_binning_def sfa_binning_def
    using d m by (simp add: c Let_def)
  show ?thesis
    using b by (simp add: fit_def gram_validate[OF w] squeeze1_def c Let_def)
qed

lemma gram_fields:
  assumes w: "w = 1 \<or> w = 2"
  shows "word_length (gram_sfa b w) = w" "alphabet_size (gram_sfa b w) = 4"
    "window_size (gram_sfa b w) = 1" "\<not> norm_opt (gram_sfa b w)"
    "dft_length (gram_sfa b w) = 2" "priv_use_fallback_dft (gram_sfa b w)"
    "inverse_sqrt_win_size (gram_sfa b w) = 1"
    "lower_bounding (gram_sfa b w)" "\<not> anova (gram_sfa b w)"
    "\<not> remove_repeat_words (gram_sfa b w)"
    "levels (gram_sfa b w) = 1" "bigrams (gram_sfa b w) = b"
    "\<not> skip_grams (gram_sfa b w)" "save_words (gram_sfa b w)"
    "\<not> priv_typed_dict (gram_sfa b w)"
    "letter_bits (gram_sfa b w) = 2" "word_bits (gram_sfa b w) = w * 2"
    "max_bits (gram_sfa b w) = (if b then w * 2 * 2 else w * 2)"
    "breakpoints (gram_sfa b w) = take (nat w) [[1, 2, 3, float_max], [0, 0, 0, float_max]]"
  by (simp_all add: gram_sfa_def gram_fit[OF w] gram_constructed[OF w])

lemma gram_mft:
  assumes w: "w = 1 \<or> w = 2"
  shows "mft (gram_sfa b w) [0, 1, 2, 3] = Inr [[0, 0], [1, 0], [2, 0], [3, 0]]"
  by (simp add: mft_def gram_fields[OF w] get_phis_def calc_incremental_mean_std_def
      slice0_def item_def std_floor_def mft_seed_def discrete_fourier_transform_def dft_real_def
      dft_imag_def mft_output_def negate_odd_def Let_def upt_conv_Cons)


lemma gram_bins:
  "find_bin 0 [1, 2, 3, float_max] 4 = Some 0" "find_bin 1 [1, 2, 3, float_max] 4 = Some 0"
  "find_bin 2 [1, 2, 3, float_max] 4 = Some 1" "find_bin 3 [1, 2, 3, float_max] 4 = Some 2"
  "find_bin 0 [0, 0, 0, float_max] 4 = Some 0"
  by (simp_all add: find_bin_def upt_conv_Cons)

lemma gram_words:
  "map (window_word (gram_sfa b 2)) [[0, 0], [1, 0], [2, 0], [3, 0]] = [0, 0, 4, 8]"
  "map (window_word (gram_sfa b 1)) [[0, 0], [1, 0], [2, 0], [3, 0]] = [0, 0, 1, 2]"
  by (simp_all add: window_word_def create_word_def gram_fields gram_bins upt_conv_Cons)

lemma gram_full:
  "transform_case (gram_sfa True 2) [[0, 0], [1, 0], [2, 0], [3, 0]]
     = Inr ([IntKey 0 \<mapsto> 3, IntKey 4 \<mapsto> 2, IntKey 8 \<mapsto> 1, IntKey 72 \<mapsto> 1], [0, 0, 4, 8])"
  using gram_words(1)[of True]
  by (simp add: transform_case_def transform_window_def count_word_def add_to_bag_def
      ngrams_def ngram_step_def ngram_key_def create_bigram_words_def create_bigram_word_def
      bag_add_def bag_get_def gram_fields Let_def upt_conv_Cons numeral_2_eq_2 numeral_3_eq_3)

lemma gram_short:
  "shorten_case ((gram_sfa True 2)\<lparr>words := W\<rparr>) 1 [0, 0, 4, 8]
     = Inr [IntKey 0 \<mapsto> 3, IntKey 1 \<mapsto> 2, IntKey 2 \<mapsto> 1, IntKey 18 \<mapsto> 1]"
  by (simp add: shorten_case_def shorten_window_def shorten_words_def shorten_word_def
      count_word_def add_to_bag_def
      ngrams_def ngram_step_def ngram_key_def create_bigram_words_def create_bigram_word_def
      bag_add_def bag_get_def gram_fields Let_def upt_conv_Cons numeral_2_eq_2 numeral_3_eq_3)

lemma gram_fresh:
  "transform_case (gram_sfa True 1) [[0, 0], [1, 0], [2, 0], [3, 0]]
     = Inr ([IntKey 0 \<mapsto> 3, IntKey 1 \<mapsto> 2, IntKey 2 \<mapsto> 1, IntKey 6 \<mapsto> 1], [0, 0, 1, 2])"
  using gram_words(2)[of True]
  by (simp add: transform_case_def transform_window_def count_word_def add_to_bag_def
      ngrams_def ngram_step_def ngram_key_def create_bigram_words_def create_bigram_word_def
      bag_add_def bag_get_def gram_fields Let_def upt_conv_Cons numeral_2_eq_2 numeral_3_eq_3)

text \<open>
  C1 as stated is false with bigrams: \<^verbatim>\<open>_shorten_case\<close> composes a bigram of two
  shortened words with the shift \<^verbatim>\<open>word_bits\<close> of the full length, the transform at
  the shorter length with the shift of the shorter words.
  \<^verbatim>\<open>SFA(word_length=2, alphabet_size=4, window_size=1, bigrams=True, save_words=True)\<close>,
  fitted on the series \<open>[0, 1, 2, 3]\<close>, saves the words \<open>[0, 0, 4, 8]\<close> for that series;
  shortened to one letter they are \<open>[0, 0, 1, 2]\<close>, and the bigram of the last two
  windows is \<open>1 * 16 + 2 = 18\<close>. The transformer with \<^verbatim>\<open>word_length=1\<close> fitted on the
  same series has the same words \<open>[0, 0, 1, 2]\<close> and the bigram \<open>1 * 4 + 2 = 6\<close>.
\<close>

theorem shortened_bigrams_differ:
  "transform_series (gram_sfa True 2) [0, 1, 2, 3]
     = Inr ([IntKey 0 \<mapsto> 3, IntKey 4 \<mapsto> 2, IntKey 8 \<mapsto> 1, IntKey 72 \<mapsto> 1], [0, 0, 4, 8])
   \<and> shorten_bags ((gram_sfa True 2)\<lparr>words := [[0, 0, 4, 8]]\<rparr>) 1
       = Inr [[IntKey 0 \<mapsto> 3, IntKey 1 \<mapsto> 2, IntKey 2 \<mapsto> 1, IntKey 18 \<mapsto> 1]]
   \<and> transform_series (gram_sfa True 1) [0, 1, 2, 3]
       = Inr ([IntKey 0 \<mapsto> 3, IntKey 1 \<mapsto> 2, IntKey 2 \<mapsto> 1, IntKey 6 \<mapsto> 1], [0, 0, 1, 2])
   \<and> [IntKey 0 \<mapsto> 3 :: nat, IntKey 1 \<mapsto> 2, IntKey 2 \<mapsto> 1, IntKey 18 \<mapsto> 1]
       \<noteq> [IntKey 0 \<mapsto> 3, IntKey 1 \<mapsto> 2, IntKey 2 \<mapsto> 1, IntKey 6 \<mapsto> 1]"
proof -
  have "[IntKey 0 \<mapsto> 3 :: nat, IntKey 1 \<mapsto> 2, IntKey 2 \<mapsto> 1, IntKey 18 \<mapsto> 1] (IntKey 18)
          \<noteq> [IntKey 0 \<mapsto> 3, IntKey 1 \<mapsto> 2, IntKey 2 \<mapsto> 1, IntKey 6 \<mapsto> 1] (IntKey 18)"
    by simp
  then have ne: "[IntKey 0 \<mapsto> 3 :: nat, IntKey 1 \<mapsto> 2, IntKey 2 \<mapsto> 1, IntKey 18 \<mapsto> 1]
       \<noteq> [IntKey 0 \<mapsto> 3, IntKey 1 \<mapsto> 2, IntKey 2 \<mapsto> 1, IntKey 6 \<mapsto> 1]"
    by metis
  show ?thesis
    using ne
    by (simp add: transform_series_def gram_mft gram_full gram_fresh gram_short
        shorten_bags_def gram_fields)
qed


lemma gram_fitted: "fitted (gram_sfa b 2)"
  by (simp add: fitted_def gram_fields ceil_log2_4)

lemma gram_classifiable:
  "\<forall>row\<in>set [[0, 0], [1, 0], [2, 0], [3, 0]].
     classifiable row (nat (word_length (gram_sfa b 2))) (alphabet_size (gram_sfa b 2))
       (breakpoints (gram_sfa b 2))"
  by (simp add: classifiable_def gram_fields gram_bins numeral_2_eq_2 less_Suc_eq)

lemma gram_unigrams:
  "transform_case (gram_sfa False 2) [[0, 0], [1, 0], [2, 0], [3, 0]]
     = Inr ([IntKey 0 \<mapsto> 2, IntKey 4 \<mapsto> 1, IntKey 8 \<mapsto> 1], [0, 0, 4, 8])"
  "transform_case (gram_sfa False 1) [[0, 0], [1, 0], [2, 0], [3, 0]]
     = Inr ([IntKey 0 \<mapsto> 2, IntKey 1 \<mapsto> 1, IntKey 2 \<mapsto> 1], [0, 0, 1, 2])"
  using gram_words[of False]
  by (simp_all add: transform_case_def transform_window_def count_word_def add_to_bag_def
      ngrams_def bag_add_def bag_get_def gram_fields Let_def upt_conv_Cons numeral_2_eq_2)

text \<open>
  The amended C1 at the transformer with two letters over four symbols, without bigrams,
  shortened to one letter on the series it was fitted on: the bag of the shortened words
  is the bag of the truncated transformer, which is the bag of the transformer fitted
  with \<^verbatim>\<open>word_length=1\<close>.
\<close>

theorem shortening_equivalence_witness:
  "fitted (gram_sfa False 2) \<and> save_words (gram_sfa False 2)
   \<and> \<not> bigrams (gram_sfa False 2) \<and> \<not> skip_grams (gram_sfa False 2)
   \<and> word_bits (gram_sfa False 2) = 4 \<and> levels (gram_sfa False 2) = 1
   \<and> transform_series (gram_sfa False 2) [0, 1, 2, 3]
        = Inr ([IntKey 0 \<mapsto> 2, IntKey 4 \<mapsto> 1, IntKey 8 \<mapsto> 1], [0, 0, 4, 8])
   \<and> shorten_case (gram_sfa False 2) 1 [0, 0, 4, 8]
        = bag_of (transform_case (refit (gram_sfa False 2) 1) [[0, 0], [1, 0], [2, 0], [3, 0]])
   \<and> shorten_case (gram_sfa False 2) 1 [0, 0, 4, 8]
        = bag_of (transform_series (gram_sfa False 1) [0, 1, 2, 3])"
proof -
  let ?rows = "[[0, 0], [1, 0], [2, 0], [3, 0 :: real]]"
  have e: "shorten_case (gram_sfa False 2) 1 [0, 0, 4, 8]
        = bag_of (transform_case (refit (gram_sfa False 2) 1) ?rows)"
    using shortening_equivalence[of "gram_sfa False 2" 1 ?rows ?rows
        "[IntKey 0 \<mapsto> 2, IntKey 4 \<mapsto> 1, IntKey 8 \<mapsto> 1]" "[0, 0, 4, 8]"]
      gram_fitted[of False] gram_classifiable[of False] gram_unigrams(1)
    by (simp add: gram_fields)
  have "shorten_case (gram_sfa False 2) 1 [0, 0, 4, 8]
          = Inr [IntKey 0 \<mapsto> 2, IntKey 1 \<mapsto> 1, IntKey 2 \<mapsto> 1]"
    by (simp add: shorten_case_def shorten_window_def shorten_words_def shorten_word_def
      count_word_def add_to_bag_def ngrams_def
      bag_add_def bag_get_def gram_fields Let_def upt_conv_Cons numeral_2_eq_2)
  then show ?thesis
    using e gram_fitted[of False]
    by (simp add: transform_series_def gram_mft gram_unigrams bag_of_def gram_fields)
qed

end
